theory Spec2Isabelle
  imports Complex_Main "HOL-Library.Multiset" "HOL-Library.AList"
    "HOL-Library.List_Lexorder" "HOL-Library.Char_ord"
begin

section \<open>Failures\<close>

text \<open>
  The Python exceptions the pipeline can raise, followed by the two failure kinds that
  only the specification names (no statement of the program raises them).
\<close>

datatype failure =
    ZeroDivisionError | ValueError | TypeError | IndexError | KeyError | InvalidArgumentError
  | NotFound | DegenerateInput

section \<open>Strings\<close>

text \<open>Characters are restricted to ASCII; \<open>str.lower\<close>, \<open>str.upper\<close> and
  \<open>str.split\<close> are the ASCII fragments of the Python methods.\<close>

definition lower_char :: "char \<Rightarrow> char" where
  "lower_char c = (let n = (of_char c :: nat) in if 65 \<le> n \<and> n \<le> 90 then char_of (n + 32) else c)"

definition upper_char :: "char \<Rightarrow> char" where
  "upper_char c = (let n = (of_char c :: nat) in if 97 \<le> n \<and> n \<le> 122 then char_of (n - 32) else c)"

definition lower :: "string \<Rightarrow> string" where
  "lower s = map lower_char s"

definition upper :: "string \<Rightarrow> string" where
  "upper s = map upper_char s"

definition is_space :: "char \<Rightarrow> bool" where
  "is_space c = (let n = (of_char c :: nat) in (9 \<le> n \<and> n \<le> 13) \<or> (28 \<le> n \<and> n \<le> 32))"

text \<open>\<open>s.split()\<close>: the maximal runs of non-whitespace characters.\<close>

fun split_acc :: "string \<Rightarrow> string \<Rightarrow> string list" where
  "split_acc cur [] = (if cur = [] then [] else [cur])"
| "split_acc cur (c # cs) =
     (if is_space c then (if cur = [] then split_acc [] cs else cur # split_acc [] cs)
      else split_acc (cur @ [c]) cs)"

definition split_ws :: "string \<Rightarrow> string list" where
  "split_ws s = split_acc [] s"

text \<open>\<open>s.split(sep)\<close> for a one-character separator: empty fields are kept.\<close>

fun split_on_acc :: "char \<Rightarrow> string \<Rightarrow> string \<Rightarrow> string list" where
  "split_on_acc sep cur [] = [cur]"
| "split_on_acc sep cur (c # cs) =
     (if c = sep then cur # split_on_acc sep [] cs else split_on_acc sep (cur @ [c]) cs)"

definition split_on :: "char \<Rightarrow> string \<Rightarrow> string list" where
  "split_on sep s = split_on_acc sep [] s"

text \<open>\<open>sep.join(xs)\<close>.\<close>

fun join :: "string \<Rightarrow> string list \<Rightarrow> string" where
  "join sep [] = []"
| "join sep [x] = x"
| "join sep (x # y # ys) = x @ sep @ join sep (y # ys)"

text \<open>\<open>str(n)\<close> for a non-negative integer.\<close>

definition digit_char :: "nat \<Rightarrow> char" where
  "digit_char d = ''0123456789'' ! d"

fun str_of_nat :: "nat \<Rightarrow> string" where
  "str_of_nat n = (if n < 10 then [digit_char n] else str_of_nat (n div 10) @ [digit_char (n mod 10)])"

declare str_of_nat.simps [simp del]

section \<open>The input tables and the normalised catalog\<close>

text \<open>\<open>df_mov\<close> after the columns \<open>genres_split\<close> and \<open>title_length\<close> were added.\<close>

record mov =
  movieId :: int
  title :: string
  genres :: string
  genres_split :: "string list"
  title_length :: nat

record rat =
  userId :: int
  r_movieId :: int
  r_rating :: real
  timestamp :: int

text \<open>A row of \<open>movies.csv\<close> with the two derived columns.\<close>

definition df_mov_row :: "int \<Rightarrow> string \<Rightarrow> string \<Rightarrow> mov" where
  "df_mov_row i t g =
     \<lparr>movieId = i, title = t, genres = g, genres_split = split_on (CHR ''|'') g,
      title_length = length t\<rparr>"

text \<open>\<open>pd.merge(df_rat, df_mov, on='movieId')\<close>: an inner join that keeps the order of
  the left table; each rating row is paired with the catalog rows of its movie.\<close>

definition merge :: "rat list \<Rightarrow> mov list \<Rightarrow> (rat \<times> mov) list" where
  "merge df_rat df_mov =
     concat (map (\<lambda>r. map (\<lambda>m. (r, m)) (filter (\<lambda>m. movieId m = r_movieId r) df_mov)) df_rat)"

text \<open>\<open>drop_duplicates(key)\<close> keeps the first row of every key, as does \<open>unique()\<close>.\<close>

fun drop_duplicates :: "('a \<Rightarrow> 'k) \<Rightarrow> 'a list \<Rightarrow> 'a list" where
  "drop_duplicates key [] = []"
| "drop_duplicates key (x # xs) = x # drop_duplicates key (filter (\<lambda>y. key y \<noteq> key x) xs)"

definition unique :: "'a list \<Rightarrow> 'a list" where
  "unique xs = drop_duplicates (\<lambda>x. x) xs"

record content = mov +
  rating :: real
  movie_label :: string
  content_features :: string

definition content_row :: "rat \<times> mov \<Rightarrow> content" where
  "content_row p =
     (case p of (r, m) \<Rightarrow>
        \<lparr>movieId = movieId m, title = title m, genres = genres m,
         genres_split = genres_split m, title_length = title_length m,
         rating = r_rating r,
         movie_label = title m @ '' ('' @ genres m @ '')'',
         content_features = join '' '' (genres_split m) @ '' '' @ str_of_nat (title_length m)\<rparr>)"

definition dataset_content :: "rat list \<Rightarrow> mov list \<Rightarrow> content list" where
  "dataset_content df_rat df_mov =
     map content_row (drop_duplicates (\<lambda>p. movieId (snd p)) (merge df_rat df_mov))"

text \<open>\<open>content_based_data\<close>: three columns of \<open>dataset_content\<close>.\<close>

record item =
  i_title :: string
  i_movie_label :: string
  i_content_features :: string

definition content_based_data :: "content list \<Rightarrow> item list" where
  "content_based_data dc =
     map (\<lambda>c. \<lparr>i_title = title c, i_movie_label = movie_label c,
                i_content_features = content_features c\<rparr>) dc"

section \<open>The interaction encoder\<close>

record frow =
  f_movieId :: int
  f_title :: string
  f_genres_split :: "string list"
  f_title_length :: nat
  f_rating :: real
  f_genres_str :: string
  f_movie_label :: string
  f_content_features :: string
  film_id :: string

text \<open>\<open>x.split()[0][:3].upper()\<close>: a title without a word raises IndexError.\<close>

definition film_prefix :: "string \<Rightarrow> failure + string" where
  "film_prefix x = (case split_ws x of [] \<Rightarrow> Inl IndexError | w # _ \<Rightarrow> Inr (upper (take 3 w)))"

definition filter_row :: "nat \<Rightarrow> content \<Rightarrow> failure + frow" where
  "filter_row idx c =
     (case film_prefix (title c) of
        Inl e \<Rightarrow> Inl e
      | Inr p \<Rightarrow>
          (let gs = join '' '' (genres_split c) in
           Inr \<lparr>f_movieId = movieId c, f_title = title c, f_genres_split = genres_split c,
                f_title_length = title_length c, f_rating = rating c, f_genres_str = gs,
                f_movie_label = title c @ '' ('' @ gs @ '')'',
                f_content_features = gs @ '' '' @ str_of_nat (title_length c),
                film_id = p @ str_of_nat idx\<rparr>))"

text \<open>\<open>Series.apply\<close>: the first element on which the function raises ends the call.\<close>

fun apply_rows :: "('a \<Rightarrow> failure + 'b) \<Rightarrow> 'a list \<Rightarrow> failure + 'b list" where
  "apply_rows f [] = Inr []"
| "apply_rows f (x # xs) =
     (case f x of
        Inl e \<Rightarrow> Inl e
      | Inr y \<Rightarrow> (case apply_rows f xs of Inl e \<Rightarrow> Inl e | Inr ys \<Rightarrow> Inr (y # ys)))"

definition dataset_filter :: "content list \<Rightarrow> failure + frow list" where
  "dataset_filter dc = apply_rows (\<lambda>(idx, c). filter_row idx c) (enumerate 0 dc)"

text \<open>A Python dict keeps its keys in insertion order: an association list with
  distinct keys, where storing under a present key replaces the value in place. The dict
  comprehensions \<open>{x: i for i, x in enumerate(xs)}\<close> and
  \<open>{i: x for i, x in enumerate(xs)}\<close> store the pairs one after the other;
  \<open>d[k]\<close> and \<open>d.get(k)\<close> are \<open>map_of d k\<close>, \<open>len(d)\<close> is \<open>length d\<close> and
  \<open>list(d.values())\<close> is \<open>map snd d\<close>.\<close>

type_synonym ('k, 'v) dict = "('k \<times> 'v) list"

definition encode_dict :: "'a list \<Rightarrow> ('a, nat) dict" where
  "encode_dict xs = foldl (\<lambda>d (i, x). AList.update x i d) [] (enumerate 0 xs)"

definition decode_dict :: "'a list \<Rightarrow> (nat, 'a) dict" where
  "decode_dict xs = foldl (\<lambda>d (i, x). AList.update i x d) [] (enumerate 0 xs)"

definition film_ids :: "frow list \<Rightarrow> string list" where
  "film_ids df = unique (map film_id df)"

definition film_to_film_encoded :: "frow list \<Rightarrow> (string, nat) dict" where
  "film_to_film_encoded df = encode_dict (film_ids df)"

definition film_encoded_to_film :: "frow list \<Rightarrow> (nat, string) dict" where
  "film_encoded_to_film df = decode_dict (film_ids df)"

definition movie_labels :: "frow list \<Rightarrow> string list" where
  "movie_labels df = unique (map f_movie_label df)"

definition movie_to_encoded :: "frow list \<Rightarrow> (string, nat) dict" where
  "movie_to_encoded df = encode_dict (movie_labels df)"

definition encoded_to_movie :: "frow list \<Rightarrow> (nat, string) dict" where
  "encoded_to_movie df = decode_dict (movie_labels df)"



text \<open>The builtins \<open>min\<close> and \<open>max\<close> raise ValueError on an empty column.\<close>

fun py_min :: "real list \<Rightarrow> failure + real" where
  "py_min [] = Inl ValueError"
| "py_min (x # xs) = Inr (foldl min x xs)"

fun py_max :: "real list \<Rightarrow> failure + real" where
  "py_max [] = Inl ValueError"
| "py_max (x # xs) = Inr (foldl max x xs)"

definition min_popularity :: "frow list \<Rightarrow> failure + real" where
  "min_popularity df = py_min (map f_rating df)"

definition max_popularity :: "frow list \<Rightarrow> failure + real" where
  "max_popularity df = py_max (map f_rating df)"

text \<open>\<open>dataset_filter[["track", "name", "rating"]].sample(frac = 1, random_state = 42)\<close>:
  the rows in the order \<open>perm\<close> drawn by the seeded generator (a permutation of the row
  numbers). \<open>Series.map\<close> with a dict gives a missing value for an absent key.\<close>

definition collaborative_based :: "nat list \<Rightarrow> frow list \<Rightarrow> (nat option \<times> nat option \<times> real) list" where
  "collaborative_based perm df =
     map (\<lambda>i. let r = df ! i in
                (map_of (film_to_film_encoded df) (film_id r),
                 map_of (movie_to_encoded df) (f_movie_label r), f_rating r)) perm"

text \<open>The lambda \<open>(x - min_popularity) / (max_popularity - min_popularity)\<close> on Python
  floats: a zero divisor raises ZeroDivisionError.\<close>

definition normalize_rating :: "real \<Rightarrow> real \<Rightarrow> real \<Rightarrow> failure + real" where
  "normalize_rating mn mx x =
     (if mx - mn = 0 then Inl ZeroDivisionError else Inr ((x - mn) / (mx - mn)))"

definition y :: "nat list \<Rightarrow> frow list \<Rightarrow> failure + real list" where
  "y perm df =
     (case min_popularity df of
        Inl e \<Rightarrow> Inl e
      | Inr mn \<Rightarrow>
          (case max_popularity df of
             Inl e \<Rightarrow> Inl e
           | Inr mx \<Rightarrow>
               apply_rows (\<lambda>(t, n, x). normalize_rating mn mx x) (collaborative_based perm df)))"

section \<open>The content feature encoder and the similarity matrix\<close>

text \<open>\<open>TfidfVectorizer()\<close> is called with its default parameters: the text is lowercased,
  the tokens are the matches of \<open>(?u)\\b\\w\\w+\\b\<close> (the maximal runs of two or more word
  characters), the vocabulary is sorted, the document frequency is smoothed and the
  rows are L2-normalised. An empty vocabulary raises ValueError. Floating-point numbers
  are modelled as reals.\<close>

definition is_word_char :: "char \<Rightarrow> bool" where
  "is_word_char c =
     (let n = (of_char c :: nat)
      in (48 \<le> n \<and> n \<le> 57) \<or> (65 \<le> n \<and> n \<le> 90) \<or> n = 95 \<or> (97 \<le> n \<and> n \<le> 122))"

fun token_acc :: "string \<Rightarrow> string \<Rightarrow> string list" where
  "token_acc cur [] = (if 2 \<le> length cur then [cur] else [])"
| "token_acc cur (c # cs) =
     (if is_word_char c then token_acc (cur @ [c]) cs
      else if 2 \<le> length cur then cur # token_acc [] cs
      else token_acc [] cs)"

definition analyzer :: "string \<Rightarrow> string list" where
  "analyzer doc = token_acc [] (lower doc)"

text \<open>The maximal runs of word characters of a string, as the token pattern reads it: the
  string is a gap of other characters, then a non-empty run of word characters that ends
  where the string ends or another character follows, then the rest, which is read the
  same way. The pattern keeps the runs of two or more characters.\<close>

inductive runs_of :: "string \<Rightarrow> string list \<Rightarrow> bool" where
  no_run: "\<forall>c\<in>set g. \<not> is_word_char c \<Longrightarrow> runs_of g []"
| run: "\<forall>c\<in>set g. \<not> is_word_char c \<Longrightarrow> r \<noteq> [] \<Longrightarrow> \<forall>c\<in>set r. is_word_char c
        \<Longrightarrow> rest = [] \<or> \<not> is_word_char (hd rest) \<Longrightarrow> runs_of rest R
        \<Longrightarrow> runs_of (g @ r @ rest) (r # R)"

definition vocabulary :: "string list \<Rightarrow> string list" where
  "vocabulary docs = sort (remdups (concat (map analyzer docs)))"

definition tf :: "string \<Rightarrow> string \<Rightarrow> real" where
  "tf doc t = real (count_list (analyzer doc) t)"

definition doc_freq :: "string list \<Rightarrow> string \<Rightarrow> nat" where
  "doc_freq docs t = length (filter (\<lambda>d. t \<in> set (analyzer d)) docs)"

definition idf :: "string list \<Rightarrow> string \<Rightarrow> real" where
  "idf docs t = ln ((1 + real (length docs)) / (1 + real (doc_freq docs t))) + 1"

definition norm2 :: "real list \<Rightarrow> real" where
  "norm2 v = sqrt (sum_list (map (\<lambda>x. x * x) v))"

text \<open>\<open>sklearn.preprocessing.normalize\<close>: a row of norm zero is left as it is.\<close>

definition l2_normalize :: "real list \<Rightarrow> real list" where
  "l2_normalize v = (if norm2 v = 0 then v else map (\<lambda>x. x / norm2 v) v)"

definition tfidf_row :: "string list \<Rightarrow> string \<Rightarrow> real list" where
  "tfidf_row docs doc = l2_normalize (map (\<lambda>t. tf doc t * idf docs t) (vocabulary docs))"

definition tfidf_matrix :: "string list \<Rightarrow> failure + real list list" where
  "tfidf_matrix docs =
     (if vocabulary docs = [] then Inl ValueError else Inr (map (tfidf_row docs) docs))"

definition dot :: "real list \<Rightarrow> real list \<Rightarrow> real" where
  "dot u v = sum_list (map2 (*) u v)"

text \<open>\<open>cosine_similarity(X, Y)\<close> normalises the rows of both arguments and multiplies.\<close>

definition cosine_similarity :: "real list list \<Rightarrow> real list list \<Rightarrow> real list list" where
  "cosine_similarity X Y = map (\<lambda>x. map (\<lambda>y. dot (l2_normalize x) (l2_normalize y)) Y) X"

definition cosine_sim :: "string list \<Rightarrow> failure + real list list" where
  "cosine_sim docs =
     (case tfidf_matrix docs of Inl e \<Rightarrow> Inl e | Inr X \<Rightarrow> Inr (cosine_similarity X X))"

text \<open>A DataFrame of numbers: the row labels and the labelled columns.\<close>

record frame =
  frame_index :: "string list"
  frame_columns :: "(string \<times> real list) list"

definition cosine_sim_df :: "item list \<Rightarrow> failure + frame" where
  "cosine_sim_df items =
     (case cosine_sim (map i_content_features items) of
        Inl e \<Rightarrow> Inl e
      | Inr M \<Rightarrow>
          Inr \<lparr>frame_index = map i_movie_label items,
               frame_columns = zip (map i_movie_label items) (transpose M)\<rparr>)"

section \<open>The content-based query\<close>

text \<open>\<open>similarity_data[movie_label]\<close>: a missing label raises KeyError; a label that
  names several columns selects a DataFrame, on which \<open>sort_values(ascending=False)\<close>
  raises TypeError.\<close>

definition column :: "frame \<Rightarrow> string \<Rightarrow> failure + (string \<times> real) list" where
  "column sd l =
     (case filter (\<lambda>c. fst c = l) (frame_columns sd) of
        [] \<Rightarrow> Inl KeyError
      | [c] \<Rightarrow> Inr (zip (frame_index sd) (snd c))
      | _ \<Rightarrow> Inl TypeError)"

text \<open>\<open>sort_values(ascending=False)\<close> is the library's sort: it returns the same
  entries by descending score and promises nothing about the order of equal scores (its
  default algorithm is not stable). The query takes the sort as a parameter, and
  \<open>descending_sort\<close> says what every such sort guarantees. \<open>sort_values_stable\<close> is one
  descending sort, the one that keeps equal scores in catalog order; it stands for the
  library's sort only on columns without equal scores, where all descending sorts agree.\<close>

definition descending_sort :: "((string \<times> real) list \<Rightarrow> (string \<times> real) list) \<Rightarrow> bool" where
  "descending_sort sort_values \<longleftrightarrow>
     (\<forall>ser. mset (sort_values ser) = mset ser
            \<and> sorted_wrt (\<lambda>p q. snd q \<le> snd p) (sort_values ser))"

definition sort_values_stable :: "(string \<times> real) list \<Rightarrow> (string \<times> real) list" where
  "sort_values_stable ser = sort_key (\<lambda>p. - snd p) ser"

text \<open>Python slices \<open>xs[a:b]\<close> and \<open>xs[a:]\<close>: a negative bound counts from the end, and
  both bounds are clamped to the list.\<close>

definition slice_bound :: "nat \<Rightarrow> int \<Rightarrow> nat" where
  "slice_bound n i = (if i < 0 then nat (max 0 (int n + i)) else min n (nat i))"

definition py_slice :: "int \<Rightarrow> int \<Rightarrow> 'a list \<Rightarrow> 'a list" where
  "py_slice a b xs =
     (let s = slice_bound (length xs) a; e = slice_bound (length xs) b
      in take (e - s) (drop s xs))"

definition py_slice_from :: "int \<Rightarrow> 'a list \<Rightarrow> 'a list" where
  "py_slice_from a xs = drop (slice_bound (length xs) a) xs"

text \<open>The function returns a string or a DataFrame.\<close>

datatype reply = Message string | Frame "item list"

definition content_based_movie_recommendations ::
    "((string \<times> real) list \<Rightarrow> (string \<times> real) list)
      \<Rightarrow> string \<Rightarrow> frame \<Rightarrow> item list \<Rightarrow> int \<Rightarrow> failure + reply" where
  "content_based_movie_recommendations sort_values ttl similarity_data items k =
     (case filter (\<lambda>it. lower (i_title it) = lower ttl) items of
        [] \<Rightarrow> Inr (Message (''Judul '' @ [CHR 0x27] @ ttl @ [CHR 0x27]
                              @ '' tidak ditemukan dalam dataset.''))
      | m # _ \<Rightarrow>
          (case column similarity_data (i_movie_label m) of
             Inl e \<Rightarrow> Inl e
           | Inr col \<Rightarrow>
               (let sim_scores = sort_values col;
                    top_indices = map fst (py_slice 1 (k + 1) sim_scores)
                in Inr (Frame (filter (\<lambda>it. i_movie_label it \<in> set top_indices) items)))))"

section \<open>The latent factor model\<close>

text \<open>The four tables of \<open>RecommenderNet\<close>; a bias table has one number per row.\<close>

record recommender_net =
  track_embedding :: "real list list"
  name_embedding :: "real list list"
  name_bias :: "real list"
  track_bias :: "real list"

text \<open>An \<open>Embedding\<close> layer looks a row up; an index outside the table is rejected.\<close>

definition embedding :: "'a list \<Rightarrow> nat \<Rightarrow> failure + 'a" where
  "embedding tbl i = (if i < length tbl then Inr (tbl ! i) else Inl InvalidArgumentError)"

text \<open>\<open>Dropout(0.3)\<close>: in training an entry is dropped or scaled by \<open>1 / (1 - 0.3)\<close>;
  otherwise the layer is the identity. \<open>dropped\<close> is the random draw.\<close>

definition dropout :: "bool \<Rightarrow> bool \<Rightarrow> real \<Rightarrow> real" where
  "dropout training dropped x =
     (if training then (if dropped then 0 else x / (1 - 3 / 10)) else x)"

definition sigmoid :: "real \<Rightarrow> real" where
  "sigmoid x = 1 / (1 + exp (- x))"

text \<open>\<open>RecommenderNet.call\<close> on one row \<open>(track, name)\<close> of the input batch.\<close>

definition call :: "recommender_net \<Rightarrow> bool \<Rightarrow> bool \<Rightarrow> nat \<times> nat \<Rightarrow> failure + real" where
  "call net training dropped inp =
     (case embedding (track_embedding net) (fst inp) of
        Inl e \<Rightarrow> Inl e
      | Inr track_vector \<Rightarrow>
     (case embedding (track_bias net) (fst inp) of
        Inl e \<Rightarrow> Inl e
      | Inr t_bias \<Rightarrow>
     (case embedding (name_embedding net) (snd inp) of
        Inl e \<Rightarrow> Inl e
      | Inr name_vector \<Rightarrow>
     (case embedding (name_bias net) (snd inp) of
        Inl e \<Rightarrow> Inl e
      | Inr n_bias \<Rightarrow>
          (if length track_vector \<noteq> length name_vector then Inl InvalidArgumentError
           else
             (let dot_track_name = sum_list (map2 (*) track_vector name_vector);
                  x = dot_track_name + t_bias + n_bias;
                  x = dropout training dropped x
              in Inr (sigmoid x)))))))"

text \<open>\<open>model.predict\<close> runs the model outside training.\<close>

definition predict :: "recommender_net \<Rightarrow> (nat \<times> nat) list \<Rightarrow> failure + real list" where
  "predict net input_array = apply_rows (call net False False) input_array"

text \<open>\<open>argsort()\<close> is the library's ascending sort of the positions, again a parameter
  of the query; \<open>argsort_stable\<close> keeps equal scores in their order.\<close>

definition argsort_stable :: "real list \<Rightarrow> nat list" where
  "argsort_stable xs = map fst (sort_key snd (enumerate 0 xs))"

text \<open>What \<open>recommend_movies_based_on_title\<close> prints; the function returns \<open>None\<close> on
  every path.\<close>

datatype printed =
    Text string
  | Film_line string string real
  | Film_missing "string option"

definition recommend_movies_based_on_title ::
    "(real list \<Rightarrow> nat list) \<Rightarrow> recommender_net \<Rightarrow> frow list \<Rightarrow> string \<Rightarrow> int
      \<Rightarrow> failure + printed list" where
  "recommend_movies_based_on_title argsort model df label top_n =
     (case map_of (movie_to_encoded df) label of
        None \<Rightarrow> Inr [Text (''Film dengan label '' @ [CHR 0x27] @ label @ [CHR 0x27]
                            @ '' tidak ditemukan.'')]
      | Some encoded_movie_label \<Rightarrow>
          (let all_film_ids = map snd (film_to_film_encoded df);
               input_array = map (\<lambda>f. (f, encoded_movie_label)) all_film_ids
           in case predict model input_array of
                Inl e \<Rightarrow> Inl e
              | Inr predicted_scores \<Rightarrow>
                  (let top_indices = rev (py_slice_from (- top_n) (argsort predicted_scores));
                       recommended_film_encoded_ids = map (\<lambda>i. all_film_ids ! i) top_indices;
                       recommended_film_ids =
                         map (map_of (film_encoded_to_film df)) recommended_film_encoded_ids
                   in Inr (Text ([CHR 0x0A] @ ''Rekomendasi film berdasarkan: '' @ [CHR 0x27]
                                  @ label @ [CHR 0x27])
                           # map (\<lambda>fid. case filter (\<lambda>r. Some (film_id r) = fid) df of
                                          [] \<Rightarrow> Film_missing fid
                                        | r # _ \<Rightarrow> Film_line (f_title r) (f_genres_str r) (f_rating r))
                                 recommended_film_ids))))"

section \<open>Test catalogs\<close>

definition rating_row :: "int \<Rightarrow> int \<Rightarrow> real \<Rightarrow> int \<Rightarrow> rat" where
  "rating_row u m r t = \<lparr>userId = u, r_movieId = m, r_rating = r, timestamp = t\<rparr>"

text \<open>Scenario A of the specification, with three rating rows.\<close>

definition scenario_mov :: "mov list" where
  "scenario_mov = [df_mov_row 1 ''Toy Story (1995)'' ''Adventure|Animation'',
                   df_mov_row 2 ''Heat (1995)'' ''Action|Crime'']"

definition scenario_rat :: "rat list" where
  "scenario_rat = [rating_row 1 1 4 964982703, rating_row 1 2 5 964982224,
                   rating_row 2 1 2 964982931]"

definition toy_row :: frow where
  "toy_row = \<lparr>f_movieId = 1, f_title = ''Toy Story (1995)'',
       f_genres_split = [''Adventure'', ''Animation''], f_title_length = 16, f_rating = 4,
       f_genres_str = ''Adventure Animation'',
       f_movie_label = ''Toy Story (1995) (Adventure Animation)'',
       f_content_features = ''Adventure Animation 16'', film_id = ''TOY0''\<rparr>"

definition heat_row :: frow where
  "heat_row = \<lparr>f_movieId = 2, f_title = ''Heat (1995)'',
       f_genres_split = [''Action'', ''Crime''], f_title_length = 11, f_rating = 5,
       f_genres_str = ''Action Crime'', f_movie_label = ''Heat (1995) (Action Crime)'',
       f_content_features = ''Action Crime 11'', film_id = ''HEA1''\<rparr>"

text \<open>Two catalog entries with the same title and the same genres.\<close>


definition emma_mov :: "mov list" where
  "emma_mov = [df_mov_row 838 ''Emma (1996)'' ''Comedy|Drama|Romance'',
               df_mov_row 26958 ''Emma (1996)'' ''Comedy|Drama|Romance'']"

definition emma_rat :: "rat list" where
  "emma_rat = [rating_row 6 838 4 845553938, rating_row 19 26958 3 965705784]"

definition emma_a :: frow where
  "emma_a = \<lparr>f_movieId = 838, f_title = ''Emma (1996)'',
       f_genres_split = [''Comedy'', ''Drama'', ''Romance''], f_title_length = 11, f_rating = 4,
       f_genres_str = ''Comedy Drama Romance'',
       f_movie_label = ''Emma (1996) (Comedy Drama Romance)'',
       f_content_features = ''Comedy Drama Romance 11'', film_id = ''EMM0''\<rparr>"

definition emma_b :: frow where
  "emma_b = \<lparr>f_movieId = 26958, f_title = ''Emma (1996)'',
       f_genres_split = [''Comedy'', ''Drama'', ''Romance''], f_title_length = 11, f_rating = 3,
       f_genres_str = ''Comedy Drama Romance'',
       f_movie_label = ''Emma (1996) (Comedy Drama Romance)'',
       f_content_features = ''Comedy Drama Romance 11'', film_id = ''EMM1''\<rparr>"

text \<open>The mean historical rating of a movie, in the words of the specification.\<close>

definition mean_rating :: "rat list \<Rightarrow> int \<Rightarrow> real" where
  "mean_rating df_rat i =
     (let rs = map r_rating (filter (\<lambda>r. r_movieId r = i) df_rat)
      in sum_list rs / real (length rs))"

text \<open>The catalog of scenario A with a third movie that nobody rated.\<close>

definition unrated_mov :: "mov list" where
  "unrated_mov = scenario_mov @ [df_mov_row 3 ''Up (2009)'' ''Adventure|Animation'']"

text \<open>Scenario C of the specification: every rating is 4.0.\<close>

definition flat_rat :: "rat list" where
  "flat_rat = [rating_row 1 1 4 964982703, rating_row 1 2 4 964982224,
               rating_row 2 1 4 964982931]"

definition flat_rows :: "frow list" where
  "flat_rows = [toy_row, heat_row\<lparr>f_rating := 4\<rparr>]"

text \<open>The items of scenario A and their similarity matrix (no shared token).\<close>

definition scenario_items :: "item list" where
  "scenario_items = content_based_data (dataset_content scenario_rat scenario_mov)"

definition scenario_sim :: frame where
  "scenario_sim =
     \<lparr>frame_index = map i_movie_label scenario_items,
      frame_columns = zip (map i_movie_label scenario_items) [[1, 0], [0, 1]]\<rparr>"

text \<open>A network with embeddings of width 2 for a catalog of two movies.\<close>

definition small_net :: recommender_net where
  "small_net =
     \<lparr>track_embedding = [[1, 0], [0, 1]], name_embedding = [[1 / 2, 0], [1, 1]],
      name_bias = [0, 1 / 4], track_bias = [1 / 2, 0]\<rparr>"

text \<open>The shapes that \<open>RecommenderNet.__init__\<close> gives the four tables.\<close>

definition net_shape :: "nat \<Rightarrow> nat \<Rightarrow> nat \<Rightarrow> recommender_net \<Rightarrow> bool" where
  "net_shape n_track n_name embedding_size net \<longleftrightarrow>
     length (track_embedding net) = n_track
     \<and> (\<forall>v\<in>set (track_embedding net). length v = embedding_size)
     \<and> length (name_embedding net) = n_name
     \<and> (\<forall>v\<in>set (name_embedding net). length v = embedding_size)
     \<and> length (name_bias net) = n_name
     \<and> length (track_bias net) = n_track"

text \<open>A similarity frame for a catalog: square, with the catalog's labels on both axes
  (what \<open>pd.DataFrame(cosine_sim, index=..., columns=...)\<close> builds).\<close>

definition frame_for :: "item list \<Rightarrow> frame \<Rightarrow> bool" where
  "frame_for items sd \<longleftrightarrow>
     frame_index sd = map i_movie_label items
     \<and> map fst (frame_columns sd) = map i_movie_label items
     \<and> (\<forall>c\<in>set (frame_columns sd). length (snd c) = length items)"

text \<open>A ranking of a labelled column: the same entries, by descending similarity.\<close>

definition ranking :: "(string \<times> real) list \<Rightarrow> (string \<times> real) list \<Rightarrow> bool" where
  "ranking ser r \<longleftrightarrow> mset r = mset ser \<and> sorted_wrt (\<lambda>p q. snd q \<le> snd p) r"

text \<open>Three movies; to the first, the third is similar and the second is not.\<close>

definition heat_mov :: "mov list" where
  "heat_mov = [df_mov_row 6 ''Heat (1995)'' ''Action|Crime|Thriller'',
               df_mov_row 1 ''Toy Story (1995)'' ''Adventure|Animation'',
               df_mov_row 2278 ''Ronin (1998)'' ''Action|Crime|Thriller'']"

definition heat_rat :: "rat list" where
  "heat_rat = [rating_row 1 6 4 964982224, rating_row 1 1 4 964982703,
               rating_row 1 2278 4 964983414]"

definition heat_items :: "item list" where
  "heat_items = content_based_data (dataset_content heat_rat heat_mov)"

definition heat_sim :: frame where
  "heat_sim =
     \<lparr>frame_index = map i_movie_label heat_items,
      frame_columns = zip (map i_movie_label heat_items)
                          [[1, 0, 9 / 10], [0, 1, 0], [9 / 10, 0, 1]]\<rparr>"

text \<open>Two movies with the same genres and the same title length.\<close>

definition twin_mov :: "mov list" where
  "twin_mov = [df_mov_row 6 ''Heat (1995)'' ''Action|Crime|Thriller'',
               df_mov_row 7011 ''Heat (1986)'' ''Action|Crime|Thriller'']"

definition twin_rat :: "rat list" where
  "twin_rat = [rating_row 1 6 4 964982224, rating_row 3 7011 3 1306463578]"

definition twin_items :: "item list" where
  "twin_items = content_based_data (dataset_content twin_rat twin_mov)"

definition twin_sim :: frame where
  "twin_sim =
     \<lparr>frame_index = map i_movie_label twin_items,
      frame_columns = zip (map i_movie_label twin_items) [[1, 1], [1, 1]]\<rparr>"

text \<open>A catalog whose second movie has a one-letter genre tag and a title of nine
  characters: its feature string has no token of two or more word characters.\<close>

definition short_mov :: "mov list" where
  "short_mov = [df_mov_row 6 ''Heat (1995)'' ''Action|Crime|Thriller'',
                df_mov_row 68954 ''Up (2009)'' ''X'']"

definition short_rat :: "rat list" where
  "short_rat = [rating_row 1 6 4 964982224, rating_row 10 68954 4 1455301685]"

definition short_items :: "item list" where
  "short_items = content_based_data (dataset_content short_rat short_mov)"

text \<open>A movie with a hyphenated genre name and a title of nine characters.\<close>

definition pi_mov :: "mov list" where
  "pi_mov = [df_mov_row 1921 ''Pi (1998)'' ''Drama|Sci-Fi|Thriller'']"

definition pi_rat :: "rat list" where
  "pi_rat = [rating_row 4 1921 4 945079259]"

definition pi_items :: "item list" where
  "pi_items = content_based_data (dataset_content pi_rat pi_mov)"

text \<open>Two feature strings: in the first every word has two or more word characters, the
  second has a hyphenated genre name and a title length of one digit.\<close>

definition genre_docs :: "string list" where
  "genre_docs = [''Action Crime Thriller 11'', ''Drama Sci-Fi Thriller 9'']"

section \<open>Entity index\<close>

lemma scenario_dataset_filter:
  "dataset_filter (dataset_content scenario_rat scenario_mov) = Inr [toy_row, heat_row]"
  by code_simp


lemma drop_duplicates_subset: "set (drop_duplicates key xs) \<subseteq> set xs"
  by (induction key xs rule: drop_duplicates.induct) auto

lemma drop_duplicates_keys:
  "key ` set (drop_duplicates key xs) = key ` set xs"
proof (induction key xs rule: drop_duplicates.induct)
  case (1 key)
  then show ?case by simp
next
  case (2 key x xs)
  have "key ` set (x # xs) = insert (key x) (key ` set (filter (\<lambda>y. key y \<noteq> key x) xs))"
    by auto
  with 2 show ?case by simp
qed

lemma drop_duplicates_distinct: "distinct (map key (drop_duplicates key xs))"
proof (induction key xs rule: drop_duplicates.induct)
  case (1 key)
  then show ?case by simp
next
  case (2 key x xs)
  have "key x \<notin> key ` set (drop_duplicates key (filter (\<lambda>y. key y \<noteq> key x) xs))"
    using drop_duplicates_subset [of key "filter (\<lambda>y. key y \<noteq> key x) xs"] by auto
  with 2 show ?case by simp
qed

lemma unique_set: "set (unique xs) = set xs"
  using drop_duplicates_keys [of "\<lambda>x. x" xs] by (simp add: unique_def)

lemma unique_distinct: "distinct (unique xs)"
  using drop_duplicates_distinct [of "\<lambda>x. x" xs] by (simp add: unique_def)

lemma unique_Cons: "unique (x # xs) = x # unique (filter (\<lambda>y. y \<noteq> x) xs)"
  by (simp add: unique_def)


lemma filter_other_id: "x \<notin> set xs \<Longrightarrow> filter (\<lambda>y. y \<noteq> x) xs = xs"
proof (induction xs)
  case Nil
  show ?case by simp
next
  case (Cons y ys)
  then have "y \<noteq> x" and "filter (\<lambda>y. y \<noteq> x) ys = ys" by auto
  then show ?case by simp
qed

lemma unique_id: "distinct xs \<Longrightarrow> unique xs = xs"
proof (induction xs)
  case Nil
  then show ?case by (simp add: unique_def)
next
  case (Cons x xs)
  then have "filter (\<lambda>y. y \<noteq> x) xs = xs" by (simp add: filter_other_id)
  with Cons show ?case by (simp add: unique_Cons)
qed

lemma takeWhile_filter_other:
  "x \<noteq> a \<Longrightarrow> takeWhile (\<lambda>y. y \<noteq> x) (filter (\<lambda>y. y \<noteq> a) xs)
      = filter (\<lambda>y. y \<noteq> a) (takeWhile (\<lambda>y. y \<noteq> x) xs)"
proof (induction xs)
  case Nil
  show ?case by simp
next
  case (Cons y ys)
  show ?case
  proof (cases "y = x")
    case True
    with Cons.prems show ?thesis by simp
  next
    case False
    with Cons show ?thesis by (cases "y = a") simp_all
  qed
qed

text \<open>The position of a key among the distinct keys is the number of different keys
  seen before its first occurrence.\<close>

lemma unique_first_seen:
  "x \<in> set xs \<Longrightarrow>
     card (set (takeWhile (\<lambda>y. y \<noteq> x) xs)) < length (unique xs) \<and>
     unique xs ! card (set (takeWhile (\<lambda>y. y \<noteq> x) xs)) = x"
proof (induction "length xs" arbitrary: xs rule: less_induct)
  case less
  from less.prems obtain a as where xs: "xs = a # as" by (cases xs) auto
  show ?case
  proof (cases "x = a")
    case True
    then show ?thesis by (simp add: xs unique_Cons)
  next
    case False
    let ?f = "filter (\<lambda>y. y \<noteq> a) as"
    from False less.prems have mem: "x \<in> set ?f" by (simp add: xs)
    have len: "length ?f < length xs" by (simp add: xs less_Suc_eq_le)
    note ih = less.hyps [OF len mem]
    have tw: "takeWhile (\<lambda>y. y \<noteq> x) ?f = filter (\<lambda>y. y \<noteq> a) (takeWhile (\<lambda>y. y \<noteq> x) as)"
      by (rule takeWhile_filter_other [OF False])
    have "set (takeWhile (\<lambda>y. y \<noteq> x) xs) = insert a (set (takeWhile (\<lambda>y. y \<noteq> x) ?f))"
      using False by (auto simp: xs tw)
    moreover have "a \<notin> set (takeWhile (\<lambda>y. y \<noteq> x) ?f)" by (simp add: tw)
    ultimately have c: "card (set (takeWhile (\<lambda>y. y \<noteq> x) xs))
        = Suc (card (set (takeWhile (\<lambda>y. y \<noteq> x) ?f)))" by simp
    define n where "n = card (set (takeWhile (\<lambda>y. y \<noteq> x) ?f))"
    have u: "unique xs = a # unique ?f" by (simp add: xs unique_Cons)
    from ih have "n < length (unique ?f)" and "unique ?f ! n = x"
      unfolding n_def by blast+
    then have "Suc n < length (a # unique ?f) \<and> (a # unique ?f) ! Suc n = x" by simp
    then show ?thesis unfolding c u n_def .
  qed
qed

lemma update_fresh: "k \<notin> fst ` set al \<Longrightarrow> AList.update k v al = al @ [(k, v)]"
  by (induction al) auto

lemma encode_dict_snoc: "encode_dict (xs @ [x]) = AList.update x (length xs) (encode_dict xs)"
  by (simp add: encode_dict_def enumerate_append_eq)

lemma decode_dict_snoc: "decode_dict (xs @ [x]) = AList.update (length xs) x (decode_dict xs)"
  by (simp add: decode_dict_def enumerate_append_eq)

lemma encode_dict_zip: "distinct xs \<Longrightarrow> encode_dict xs = zip xs [0..<length xs]"
proof (induction xs rule: rev_induct)
  case Nil
  then show ?case by (simp add: encode_dict_def)
next
  case (snoc x xs)
  then have ih: "encode_dict xs = zip xs [0..<length xs]" by simp
  have "x \<notin> fst ` set (zip xs [0..<length xs])"
    using snoc.prems by (auto dest: set_zip_leftD)
  then show ?case by (simp add: encode_dict_snoc ih update_fresh)
qed

lemma decode_dict_zip: "decode_dict xs = zip [0..<length xs] xs"
proof (induction xs rule: rev_induct)
  case Nil
  then show ?case by (simp add: decode_dict_def)
next
  case (snoc x xs)
  have "length xs \<notin> fst ` set (zip [0..<length xs] xs)"
    by (auto dest: set_zip_leftD)
  with snoc show ?case by (simp add: decode_dict_snoc update_fresh)
qed

lemma encode_dict_lookup:
  "distinct xs \<Longrightarrow> i < length xs \<Longrightarrow> map_of (encode_dict xs) (xs ! i) = Some i"
  by (simp add: encode_dict_zip map_of_zip_nth)

lemma decode_dict_lookup:
  "map_of (decode_dict xs) i = (if i < length xs then Some (xs ! i) else None)"
proof (cases "i < length xs")
  case True
  then show ?thesis
    using map_of_zip_nth [of "[0..<length xs]" xs i] by (simp add: decode_dict_zip)
next
  case False
  then have "i \<notin> fst ` set (zip [0..<length xs] xs)" by (auto dest: set_zip_leftD)
  then have "map_of (decode_dict xs) i = None" by (simp add: decode_dict_zip map_of_eq_None_iff)
  with False show ?thesis by simp
qed

lemma encode_first_seen:
  assumes "x \<in> set xs"
  shows "map_of (encode_dict (unique xs)) x = Some (card (set (takeWhile (\<lambda>y. y \<noteq> x) xs)))"
  using encode_dict_lookup [OF unique_distinct, of "card (set (takeWhile (\<lambda>y. y \<noteq> x) xs))" xs]
    unique_first_seen [OF assms] by simp

lemma encode_then_decode:
  assumes "x \<in> set xs"
  shows "\<exists>i. map_of (encode_dict (unique xs)) x = Some i \<and> map_of (decode_dict (unique xs)) i = Some x"
  using encode_first_seen [OF assms] unique_first_seen [OF assms]
  by (simp add: decode_dict_lookup)

text \<open>
  C9. For every film_id of the catalog the encoding dictionary yields an integer that the
  decoding dictionary maps back to the same film_id, and likewise for every movie_label.
\<close>

theorem entity_index_round_trip:
  assumes "r \<in> set df"
  shows "(\<exists>i. map_of (film_to_film_encoded df) (film_id r) = Some i
              \<and> map_of (film_encoded_to_film df) i = Some (film_id r))
       \<and> (\<exists>j. map_of (movie_to_encoded df) (f_movie_label r) = Some j
              \<and> map_of (encoded_to_movie df) j = Some (f_movie_label r))"
proof -
  from assms have a: "film_id r \<in> set (map film_id df)"
    and b: "f_movie_label r \<in> set (map f_movie_label df)" by auto
  show ?thesis
    unfolding film_to_film_encoded_def film_encoded_to_film_def movie_to_encoded_def
      encoded_to_movie_def film_ids_def movie_labels_def
    using encode_then_decode [OF a] encode_then_decode [OF b] by simp
qed

theorem entity_index_round_trip_witness:
  "toy_row \<in> set [toy_row, heat_row]
   \<and> (\<exists>i. map_of (film_to_film_encoded [toy_row, heat_row]) (film_id toy_row) = Some i
          \<and> map_of (film_encoded_to_film [toy_row, heat_row]) i = Some (film_id toy_row))
   \<and> (\<exists>j. map_of (movie_to_encoded [toy_row, heat_row]) (f_movie_label toy_row) = Some j
          \<and> map_of (encoded_to_movie [toy_row, heat_row]) j = Some (f_movie_label toy_row))"
  using entity_index_round_trip [of toy_row "[toy_row, heat_row]"] by simp








lemma emma_dataset_filter:
  "dataset_filter (dataset_content emma_rat emma_mov) = Inr [emma_a, emma_b]"
  by code_simp



lemma merge_set:
  "set (merge df_rat df_mov) = {(r, m). r \<in> set df_rat \<and> m \<in> set df_mov \<and> movieId m = r_movieId r}"
  by (auto simp: merge_def)

lemma dataset_content_ids:
  "map movieId (dataset_content df_rat df_mov)
     = map (\<lambda>p. movieId (snd p)) (drop_duplicates (\<lambda>p. movieId (snd p)) (merge df_rat df_mov))"
  by (simp add: dataset_content_def content_row_def case_prod_beta o_def)

lemma dataset_content_distinct: "distinct (map movieId (dataset_content df_rat df_mov))"
  unfolding dataset_content_ids by (rule drop_duplicates_distinct)

lemma dataset_content_id_set:
  "movieId ` set (dataset_content df_rat df_mov) = r_movieId ` set df_rat \<inter> movieId ` set df_mov"
proof -
  have "movieId ` set (dataset_content df_rat df_mov)
      = set (map movieId (dataset_content df_rat df_mov))" by simp
  also have "\<dots> = (\<lambda>p. movieId (snd p)) ` set (drop_duplicates (\<lambda>p. movieId (snd p)) (merge df_rat df_mov))"
    unfolding dataset_content_ids by simp
  also have "\<dots> = (\<lambda>p. movieId (snd p)) ` set (merge df_rat df_mov)"
    by (rule drop_duplicates_keys)
  also have "\<dots> = r_movieId ` set df_rat \<inter> movieId ` set df_mov"
    unfolding merge_set by force
  finally show ?thesis .
qed

lemma dataset_content_rating:
  assumes "c \<in> set (dataset_content df_rat df_mov)"
  shows "\<exists>r\<in>set df_rat. r_movieId r = movieId c \<and> rating c = r_rating r"
proof -
  let ?D = "drop_duplicates (\<lambda>p. movieId (snd p)) (merge df_rat df_mov)"
  from assms have "c \<in> content_row ` set ?D" by (simp add: dataset_content_def)
  then obtain p where p: "p \<in> set ?D" and c: "c = content_row p" by (rule imageE)
  have "set ?D \<subseteq> set (merge df_rat df_mov)" by (rule drop_duplicates_subset)
  with p have "p \<in> set (merge df_rat df_mov)" by (rule subsetD [rotated])
  then have m: "fst p \<in> set df_rat \<and> movieId (snd p) = r_movieId (fst p)"
    unfolding merge_set by (simp add: case_prod_beta)
  have "movieId c = movieId (snd p)" "rating c = r_rating (fst p)"
    by (simp_all add: c content_row_def case_prod_beta)
  with m show ?thesis by (intro bexI [of _ "fst p"]) simp_all
qed

lemma mean_of_constant:
  assumes "xs \<noteq> []" "\<forall>x\<in>set xs. x = (v::real)"
  shows "sum_list xs / real (length xs) = v"
proof -
  from assms(2) have "sum_list xs = real (length xs) * v"
    by (induction xs) (auto simp: algebra_simps)
  with assms(1) show ?thesis by simp
qed

text \<open>The catalog has exactly one record for every movie id that occurs in both tables,
  and the rating of a record is the rating of one of that movie's rating rows; where all
  rating rows of the movie carry the same value, this is the movie's mean rating.\<close>

lemma dataset_content_records:
  "distinct (map movieId (dataset_content df_rat df_mov))
   \<and> movieId ` set (dataset_content df_rat df_mov) = r_movieId ` set df_rat \<inter> movieId ` set df_mov
   \<and> (\<forall>c\<in>set (dataset_content df_rat df_mov).
         (\<exists>r\<in>set df_rat. r_movieId r = movieId c \<and> rating c = r_rating r)
       \<and> (\<forall>v. (\<forall>r\<in>set df_rat. r_movieId r = movieId c \<longrightarrow> r_rating r = v)
              \<longrightarrow> rating c = mean_rating df_rat (movieId c)))"
proof -
  have mean: "rating c = mean_rating df_rat (movieId c)"
    if c: "c \<in> set (dataset_content df_rat df_mov)"
      and v: "\<forall>r\<in>set df_rat. r_movieId r = movieId c \<longrightarrow> r_rating r = v" for c v
  proof -
    from dataset_content_rating [OF c] obtain r where r: "r \<in> set df_rat" "r_movieId r = movieId c"
      "rating c = r_rating r" by blast
    let ?rs = "map r_rating (filter (\<lambda>r. r_movieId r = movieId c) df_rat)"
    from r(1,2) have "r \<in> set (filter (\<lambda>r. r_movieId r = movieId c) df_rat)" by simp
    then have ne: "?rs \<noteq> []" by (metis empty_iff list.set(1) map_is_Nil_conv)
    from v have "\<forall>x\<in>set ?rs. x = v" by simp
    from mean_of_constant [OF ne this] have "mean_rating df_rat (movieId c) = v"
      by (simp add: mean_rating_def)
    moreover from r v have "rating c = v" by simp
    ultimately show ?thesis by simp
  qed
  show ?thesis
  proof (intro conjI ballI allI impI)
    show "distinct (map movieId (dataset_content df_rat df_mov))"
      by (rule dataset_content_distinct)
    show "movieId ` set (dataset_content df_rat df_mov) = r_movieId ` set df_rat \<inter> movieId ` set df_mov"
      by (rule dataset_content_id_set)
  next
    fix c assume "c \<in> set (dataset_content df_rat df_mov)"
    then show "\<exists>r\<in>set df_rat. r_movieId r = movieId c \<and> rating c = r_rating r"
      by (rule dataset_content_rating)
  next
    fix c v assume "c \<in> set (dataset_content df_rat df_mov)"
      "\<forall>r\<in>set df_rat. r_movieId r = movieId c \<longrightarrow> r_rating r = v"
    then show "rating c = mean_rating df_rat (movieId c)" by (rule mean)
  qed
qed

text \<open>A movie that nobody rated has no record.\<close>

lemma unrated_movie_has_no_record:
  "map movieId unrated_mov = [1, 2, 3]
   \<and> map movieId (dataset_content scenario_rat unrated_mov) = [1, 2]"
  by code_simp

text \<open>
  C8. The specification attaches to every catalog record the mean of the movie's rating
  rows, and the notebook describes the rating column as the film's average rating. The
  code keeps the rating of the movie's first rating row instead: in scenario A movie 1 is
  rated 4 and then 2, its mean rating is 3, and its record carries 4.
\<close>

theorem catalog_rating_first_row:
  "map movieId (dataset_content scenario_rat scenario_mov) = [1, 2]
   \<and> map r_rating (filter (\<lambda>r. r_movieId r = 1) scenario_rat) = [4, 2]
   \<and> mean_rating scenario_rat 1 = 3
   \<and> map rating (dataset_content scenario_rat scenario_mov) = [4, 5]"
  by code_simp

section \<open>Rating normalisation\<close>

lemma apply_rows_all_raise:
  assumes "xs \<noteq> []" "\<And>x. f x = Inl e"
  shows "apply_rows f xs = Inl e"
  using assms by (cases xs) simp_all

lemma py_min_Inr: "py_min xs = Inr m \<Longrightarrow> xs \<noteq> []"
  by (cases xs) simp_all

text \<open>
  C6 (amended). When the rating minimum equals the rating maximum, the normalisation of
  the shuffled rating column divides by zero without a guard: evaluating y raises
  ZeroDivisionError (not a DegenerateInput failure), and no normalised value is produced.
\<close>

theorem normalization_degenerate:
  assumes "min_popularity df = Inr m" and "max_popularity df = Inr m"
    and "mset perm = mset [0..<length df]"
  shows "y perm df = Inl ZeroDivisionError"
proof -
  from assms(1) have "df \<noteq> []"
    using py_min_Inr [of "map f_rating df" m] by (simp add: min_popularity_def)
  moreover have "length perm = length df"
    using arg_cong [OF assms(3), of size] by (simp only: size_mset length_upt)
  ultimately have "perm \<noteq> []" by auto
  then have ne: "collaborative_based perm df \<noteq> []" by (simp add: collaborative_based_def)
  have "apply_rows (\<lambda>(t, n, x). normalize_rating m m x) (collaborative_based perm df)
          = Inl ZeroDivisionError"
    by (rule apply_rows_all_raise [OF ne]) (simp add: normalize_rating_def case_prod_beta)
  with assms(1,2) show ?thesis by (simp add: y_def)
qed

lemma flat_dataset_filter:
  "dataset_filter (dataset_content flat_rat scenario_mov) = Inr flat_rows"
  by code_simp

theorem normalization_degenerate_witness:
  "min_popularity flat_rows = Inr 4 \<and> max_popularity flat_rows = Inr 4
   \<and> y [1, 0] flat_rows = Inl ZeroDivisionError"
proof -
  have a: "min_popularity flat_rows = Inr 4" by code_simp
  have b: "max_popularity flat_rows = Inr 4" by code_simp
  have c: "mset [1, 0] = mset [0..<length flat_rows]" by code_simp
  from normalization_degenerate [OF a b c] a b show ?thesis by simp
qed

theorem degenerate_input_counterexample:
  "dataset_filter (dataset_content flat_rat scenario_mov) = Inr flat_rows
   \<and> min_popularity flat_rows = max_popularity flat_rows
   \<and> y [1, 0] flat_rows = Inl ZeroDivisionError
   \<and> y [1, 0] flat_rows \<noteq> Inl DegenerateInput"
  by code_simp

section \<open>Queries for an absent title or label\<close>

lemma encode_dict_keys: "distinct xs \<Longrightarrow> map fst (encode_dict xs) = xs"
  by (simp add: encode_dict_zip)

lemma movie_to_encoded_absent:
  assumes "label \<notin> f_movie_label ` set df"
  shows "map_of (movie_to_encoded df) label = None"
proof -
  have "map fst (movie_to_encoded df) = unique (map f_movie_label df)"
    unfolding movie_to_encoded_def movie_labels_def
    by (rule encode_dict_keys [OF unique_distinct])
  then have "fst ` set (movie_to_encoded df) = f_movie_label ` set df"
    by (metis unique_set set_map)
  with assms show ?thesis by (simp add: map_of_eq_None_iff)
qed

text \<open>
  C7 (amended). For a title that matches no catalog title (case-insensitively) the content
  query returns the message string "Judul '<title>' tidak ditemukan dalam dataset." as
  its ordinary result, and for a label absent from the label index the latent-factor
  query prints "Film dengan label '<label>' tidak ditemukan." and returns None; neither
  signals a failure.
\<close>

theorem absent_query_gives_message:
  "((\<forall>it\<in>set items. lower (i_title it) \<noteq> lower ttl) \<longrightarrow>
      content_based_movie_recommendations sort_values ttl similarity_data items k
        = Inr (Message (''Judul '' @ [CHR 0x27] @ ttl @ [CHR 0x27]
                        @ '' tidak ditemukan dalam dataset.'')))
   \<and> (label \<notin> f_movie_label ` set df \<longrightarrow>
      recommend_movies_based_on_title argsort model df label top_n
        = Inr [Text (''Film dengan label '' @ [CHR 0x27] @ label @ [CHR 0x27]
                     @ '' tidak ditemukan.'')])"
proof (intro conjI impI)
  assume "\<forall>it\<in>set items. lower (i_title it) \<noteq> lower ttl"
  then have "filter (\<lambda>it. lower (i_title it) = lower ttl) items = []"
    by (simp add: filter_empty_conv)
  then show "content_based_movie_recommendations sort_values ttl similarity_data items k
        = Inr (Message (''Judul '' @ [CHR 0x27] @ ttl @ [CHR 0x27]
                        @ '' tidak ditemukan dalam dataset.''))"
    by (simp add: content_based_movie_recommendations_def)
next
  assume "label \<notin> f_movie_label ` set df"
  then have "map_of (movie_to_encoded df) label = None" by (rule movie_to_encoded_absent)
  then show "recommend_movies_based_on_title argsort model df label top_n
        = Inr [Text (''Film dengan label '' @ [CHR 0x27] @ label @ [CHR 0x27]
                     @ '' tidak ditemukan.'')]"
    by (simp add: recommend_movies_based_on_title_def)
qed

theorem absent_query_gives_message_witness:
  "content_based_movie_recommendations sort_values_stable ''Jumanji (1995)'' scenario_sim scenario_items 10
     = Inr (Message (''Judul '' @ [CHR 0x27] @ ''Jumanji (1995)'' @ [CHR 0x27]
                     @ '' tidak ditemukan dalam dataset.''))
   \<and> recommend_movies_based_on_title argsort_stable small_net [toy_row, heat_row]
         ''Jumanji (1995) (Adventure Children Fantasy)'' 10
     = Inr [Text (''Film dengan label '' @ [CHR 0x27]
                  @ ''Jumanji (1995) (Adventure Children Fantasy)'' @ [CHR 0x27]
                  @ '' tidak ditemukan.'')]"
proof -
  have a: "\<forall>it\<in>set scenario_items. lower (i_title it) \<noteq> lower ''Jumanji (1995)''"
    by code_simp
  have b: "''Jumanji (1995) (Adventure Children Fantasy)'' \<notin> f_movie_label ` set [toy_row, heat_row]"
    by code_simp
  from absent_query_gives_message [where items = scenario_items and ttl = "''Jumanji (1995)'' "
      and sort_values = sort_values_stable and similarity_data = scenario_sim and k = 10
      and label = "''Jumanji (1995) (Adventure Children Fantasy)'' " and df = "[toy_row, heat_row]"
      and argsort = argsort_stable and model = small_net and top_n = 10] a b
  show ?thesis by blast
qed

theorem not_found_counterexample:
  "content_based_movie_recommendations sort_values_stable ''Jumanji (1995)'' scenario_sim scenario_items 10
     \<noteq> Inl NotFound
   \<and> content_based_movie_recommendations sort_values_stable ''Jumanji (1995)'' scenario_sim scenario_items 10
     = Inr (Message ''Judul 'Jumanji (1995)' tidak ditemukan dalam dataset.'')
   \<and> recommend_movies_based_on_title argsort_stable small_net [toy_row, heat_row]
         ''Jumanji (1995) (Adventure Children Fantasy)'' 10 \<noteq> Inl NotFound
   \<and> recommend_movies_based_on_title argsort_stable small_net [toy_row, heat_row]
         ''Jumanji (1995) (Adventure Children Fantasy)'' 10
     = Inr [Text ''Film dengan label 'Jumanji (1995) (Adventure Children Fantasy)' tidak ditemukan.'']"
proof -
  have a: "content_based_movie_recommendations sort_values_stable ''Jumanji (1995)'' scenario_sim scenario_items 10
     = Inr (Message ''Judul 'Jumanji (1995)' tidak ditemukan dalam dataset.'')"
    by code_simp
  have "map_of (movie_to_encoded [toy_row, heat_row])
          ''Jumanji (1995) (Adventure Children Fantasy)'' = None"
    by code_simp
  then have b: "recommend_movies_based_on_title argsort_stable small_net [toy_row, heat_row]
         ''Jumanji (1995) (Adventure Children Fantasy)'' 10
     = Inr [Text ''Film dengan label 'Jumanji (1995) (Adventure Children Fantasy)' tidak ditemukan.'']"
    by (simp add: recommend_movies_based_on_title_def)
  show ?thesis unfolding a b by simp
qed

section \<open>The latent factor model at inference\<close>

text \<open>
  C5. For valid indices the score at inference is
  sigmoid(dot(E_track[track_id], E_name[name_id]) + b_track[track_id] + b_name[name_id]),
  whatever the dropout draw would have been; \<open>predict\<close> returns these scores.
\<close>

theorem inference_score:
  assumes "net_shape n_track n_name embedding_size net"
    and "track_id < n_track" and "name_id < n_name"
  shows "call net False dropped (track_id, name_id)
           = Inr (sigmoid (dot (track_embedding net ! track_id) (name_embedding net ! name_id)
                           + track_bias net ! track_id + name_bias net ! name_id))
       \<and> predict net [(track_id, name_id)]
           = Inr [sigmoid (dot (track_embedding net ! track_id) (name_embedding net ! name_id)
                           + track_bias net ! track_id + name_bias net ! name_id)]"
proof -
  from assms have len: "track_id < length (track_embedding net)" "track_id < length (track_bias net)"
      "name_id < length (name_embedding net)" "name_id < length (name_bias net)"
    by (simp_all add: net_shape_def)
  from assms(1) len have "length (track_embedding net ! track_id) = embedding_size"
      "length (name_embedding net ! name_id) = embedding_size"
    by (simp_all add: net_shape_def)
  then have w: "length (track_embedding net ! track_id) = length (name_embedding net ! name_id)"
    by simp
  have c: "call net False d (track_id, name_id)
           = Inr (sigmoid (dot (track_embedding net ! track_id) (name_embedding net ! name_id)
                           + track_bias net ! track_id + name_bias net ! name_id))" for d
    using len w by (simp add: call_def embedding_def dropout_def dot_def)
  then show ?thesis by (simp add: predict_def)
qed

theorem inference_score_witness:
  "net_shape 2 2 2 small_net
   \<and> call small_net False True (0, 1) = Inr (sigmoid (7 / 4))
   \<and> predict small_net [(0, 1)] = Inr [sigmoid (7 / 4)]"
proof -
  have s: "net_shape 2 2 2 small_net" by (simp add: net_shape_def small_net_def)
  have d: "dot (track_embedding small_net ! 0) (name_embedding small_net ! 1)
             + track_bias small_net ! 0 + name_bias small_net ! 1 = 7 / 4"
    by (simp add: small_net_def dot_def)
  from inference_score [OF s, of 0 1 True] s show ?thesis unfolding d by simp
qed

text \<open>In training the draw matters: a dropped pre-activation gives the score 1/2.\<close>

lemma training_dropped_score:
  "call small_net True True (0, 1) = Inr (1 / 2)"
  by (simp add: call_def embedding_def dropout_def sigmoid_def small_net_def)

section \<open>Vectors: norm, normalisation and dot product\<close>

lemma sum_sq_nonneg: "0 \<le> sum_list (map (\<lambda>x. x * x) (v :: real list))"
  by (rule sum_list_nonneg) auto

lemma norm2_nonneg: "0 \<le> norm2 v"
  by (simp add: norm2_def sum_sq_nonneg)

lemma norm2_sq: "norm2 v * norm2 v = sum_list (map (\<lambda>x. x * x) v)"
  by (simp add: norm2_def sum_sq_nonneg)

lemma sum_sq_zero_iff: "sum_list (map (\<lambda>x. x * x) (v :: real list)) = 0 \<longleftrightarrow> (\<forall>x\<in>set v. x = 0)"
proof (induction v)
  case Nil
  show ?case by simp
next
  case (Cons a v)
  have "a * a + sum_list (map (\<lambda>x. x * x) v) = 0
          \<longleftrightarrow> a * a = 0 \<and> sum_list (map (\<lambda>x. x * x) v) = 0"
    using sum_sq_nonneg [of v] by (intro add_nonneg_eq_0_iff) simp_all
  with Cons show ?case by simp
qed

lemma norm2_zero_iff: "norm2 v = 0 \<longleftrightarrow> (\<forall>x\<in>set v. x = 0)"
  by (simp add: norm2_def sum_sq_zero_iff)

lemma length_l2_normalize: "length (l2_normalize v) = length v"
  by (simp add: l2_normalize_def)

lemma sum_sq_scaled:
  "sum_list (map (\<lambda>x. x * x) (map (\<lambda>x. x / c) (v :: real list)))
     = sum_list (map (\<lambda>x. x * x) v) / (c * c)"
  by (induction v) (simp_all add: add_divide_distrib)

lemma norm2_l2_normalize: "norm2 (l2_normalize v) = (if norm2 v = 0 then 0 else 1)"
proof (cases "norm2 v = 0")
  case True
  then show ?thesis by (simp add: l2_normalize_def)
next
  case False
  have "sum_list (map (\<lambda>x. x * x) (map (\<lambda>x. x / norm2 v) v))
          = (norm2 v * norm2 v) / (norm2 v * norm2 v)"
    by (simp only: sum_sq_scaled norm2_sq)
  also have "\<dots> = 1" using False by simp
  finally have "sum_list (map (\<lambda>x. x * x) (map (\<lambda>x. x / norm2 v) v)) = 1" .
  then have "norm2 (map (\<lambda>x. x / norm2 v) v) = 1" by (simp add: norm2_def)
  with False show ?thesis by (simp add: l2_normalize_def)
qed

lemma l2_normalize_idem: "l2_normalize (l2_normalize v) = l2_normalize v"
proof (cases "norm2 v = 0")
  case True
  then show ?thesis by (simp add: l2_normalize_def)
next
  case False
  then have "norm2 (l2_normalize v) = 1" by (simp add: norm2_l2_normalize)
  then show ?thesis by (subst l2_normalize_def [of "l2_normalize v"]) simp
qed

lemma l2_normalize_nonneg:
  assumes "\<forall>x\<in>set v. 0 \<le> x"
  shows "\<forall>x\<in>set (l2_normalize v). 0 \<le> x"
  using assms norm2_nonneg [of v] by (auto simp: l2_normalize_def)

lemma dot_commute: "dot u v = dot v u"
proof -
  have "map2 (*) u v = map2 (*) v (u :: real list)"
  proof (induction u arbitrary: v)
    case Nil
    show ?case by simp
  next
    case (Cons a u)
    then show ?case by (cases v) (simp_all add: mult.commute)
  qed
  then show ?thesis by (simp add: dot_def)
qed

lemma dot_self: "dot v v = norm2 v * norm2 v"
proof -
  have "map2 (*) v v = map (\<lambda>x. x * x) v" by (induction v) simp_all
  then show ?thesis by (simp add: dot_def norm2_sq)
qed

lemma dot_nonneg:
  assumes "\<forall>x\<in>set u. 0 \<le> x" "\<forall>x\<in>set v. 0 \<le> x"
  shows "0 \<le> dot u v"
  unfolding dot_def
proof (rule sum_list_nonneg)
  fix x assume "x \<in> set (map2 (*) u v)"
  then obtain a b where x: "x = a * b" and ab: "(a, b) \<in> set (zip u v)" by auto
  from ab have "a \<in> set u" "b \<in> set v" by (auto dest: set_zip_leftD set_zip_rightD)
  with assms have "0 \<le> a" "0 \<le> b" by auto
  then show "0 \<le> x" unfolding x by simp
qed

text \<open>Termwise \<open>2ab \<le> a\<^sup>2 + b\<^sup>2\<close>.\<close>

lemma dot_le_half_squares:
  assumes "length u = length v"
  shows "2 * dot u v \<le> dot u u + dot v v"
  using assms
proof (induction u v rule: list_induct2)
  case Nil
  show ?case by (simp add: dot_def)
next
  case (Cons a u b v)
  have "0 \<le> (a - b) * (a - b)" by simp
  then have "2 * (a * b) \<le> a * a + b * b" by (simp add: algebra_simps)
  with Cons.IH show ?case by (simp add: dot_def algebra_simps)
qed

lemma dot_unit_le_1:
  assumes "length u = length v" "norm2 u \<le> 1" "norm2 v \<le> 1"
  shows "dot u v \<le> 1"
proof -
  have "norm2 u * norm2 u \<le> 1" "norm2 v * norm2 v \<le> 1"
    using assms(2,3) by (simp_all add: mult_le_one norm2_nonneg)
  with dot_le_half_squares [OF assms(1)] show ?thesis by (simp add: dot_self)
qed

lemma dot_zero_right: "\<forall>x\<in>set v. x = 0 \<Longrightarrow> dot u v = 0"
proof (induction u arbitrary: v)
  case Nil
  show ?case by (simp add: dot_def)
next
  case (Cons a u)
  then show ?case by (cases v) (simp_all add: dot_def)
qed

section \<open>TF-IDF rows\<close>

lemma doc_freq_le: "doc_freq docs t \<le> length docs"
  by (simp add: doc_freq_def)

lemma idf_ge_1: "1 \<le> idf docs t"
proof -
  have "1 + real (doc_freq docs t) \<le> 1 + real (length docs)"
    using doc_freq_le [of docs t] by simp
  then have "1 \<le> (1 + real (length docs)) / (1 + real (doc_freq docs t))"
    by (simp add: le_divide_eq)
  then have "0 \<le> ln ((1 + real (length docs)) / (1 + real (doc_freq docs t)))"
    by (rule ln_ge_zero)
  then show ?thesis by (simp add: idf_def)
qed

lemma tf_nonneg: "0 \<le> tf doc t"
  by (simp add: tf_def)

lemma tf_zero_iff: "tf doc t = 0 \<longleftrightarrow> t \<notin> set (analyzer doc)"
  by (simp add: tf_def count_list_0_iff)

lemma tf_ge_1: "t \<in> set (analyzer doc) \<Longrightarrow> 1 \<le> tf doc t"
proof -
  assume "t \<in> set (analyzer doc)"
  then have "count_list (analyzer doc) t \<noteq> 0" by (simp add: count_list_0_iff)
  then have "1 \<le> count_list (analyzer doc) t" by simp
  then show ?thesis unfolding tf_def by (metis of_nat_1 of_nat_le_iff)
qed

lemma vocabulary_set: "set (vocabulary docs) = (\<Union>d\<in>set docs. set (analyzer d))"
  by (simp add: vocabulary_def)

lemma vocabulary_distinct: "distinct (vocabulary docs)"
  by (simp add: vocabulary_def)

lemma vocabulary_sorted: "sorted (vocabulary docs)"
  by (simp add: vocabulary_def)

text \<open>The weights of a document before normalisation.\<close>

lemma weights_nonneg: "\<forall>x\<in>set (map (\<lambda>t. tf doc t * idf docs t) (vocabulary docs)). 0 \<le> x"
proof
  fix x assume "x \<in> set (map (\<lambda>t. tf doc t * idf docs t) (vocabulary docs))"
  then obtain t where "x = tf doc t * idf docs t" by auto
  moreover have "0 \<le> idf docs t" using idf_ge_1 [of docs t] by simp
  ultimately show "0 \<le> x" by (simp add: tf_nonneg)
qed

lemma weights_zero_iff:
  assumes "doc \<in> set docs"
  shows "norm2 (map (\<lambda>t. tf doc t * idf docs t) (vocabulary docs)) = 0 \<longleftrightarrow> analyzer doc = []"
proof
  assume z: "norm2 (map (\<lambda>t. tf doc t * idf docs t) (vocabulary docs)) = 0"
  show "analyzer doc = []"
  proof (rule ccontr)
    assume "analyzer doc \<noteq> []"
    then obtain t where t: "t \<in> set (analyzer doc)" by (cases "analyzer doc") auto
    with assms have "t \<in> set (vocabulary docs)" unfolding vocabulary_set by blast
    with z have "tf doc t * idf docs t = 0" unfolding norm2_zero_iff by simp
    moreover have "0 < idf docs t" using idf_ge_1 [of docs t] by simp
    moreover have "0 < tf doc t" using tf_ge_1 [OF t] by simp
    ultimately show False by simp
  qed
next
  assume "analyzer doc = []"
  then have "tf doc t = 0" for t by (simp add: tf_def)
  then show "norm2 (map (\<lambda>t. tf doc t * idf docs t) (vocabulary docs)) = 0"
    unfolding norm2_zero_iff by simp
qed

lemma tfidf_row_length: "length (tfidf_row docs doc) = length (vocabulary docs)"
  by (simp add: tfidf_row_def length_l2_normalize)

lemma tfidf_row_nonneg: "\<forall>x\<in>set (tfidf_row docs doc). 0 \<le> x"
  unfolding tfidf_row_def by (rule l2_normalize_nonneg [OF weights_nonneg])

lemma tfidf_row_norm:
  assumes "doc \<in> set docs"
  shows "norm2 (tfidf_row docs doc) = (if analyzer doc = [] then 0 else 1)"
  unfolding tfidf_row_def norm2_l2_normalize weights_zero_iff [OF assms] ..

lemma tfidf_row_normalized: "l2_normalize (tfidf_row docs doc) = tfidf_row docs doc"
  unfolding tfidf_row_def by (rule l2_normalize_idem)

text \<open>An entry of the similarity matrix is the dot product of the two TF-IDF rows.\<close>

lemma cosine_sim_entry:
  assumes "cosine_sim docs = Inr M" "i < length docs" "j < length docs"
  shows "M ! i ! j = dot (tfidf_row docs (docs ! i)) (tfidf_row docs (docs ! j))"
proof -
  from assms(1) have "M = cosine_similarity (map (tfidf_row docs) docs) (map (tfidf_row docs) docs)"
    by (auto simp: cosine_sim_def tfidf_matrix_def split: if_splits)
  with assms(2,3) show ?thesis
    by (simp add: cosine_similarity_def tfidf_row_normalized)
qed

lemma cosine_sim_shape:
  assumes "cosine_sim docs = Inr M"
  shows "length M = length docs \<and> (\<forall>row\<in>set M. length row = length docs)"
proof -
  from assms have "M = cosine_similarity (map (tfidf_row docs) docs) (map (tfidf_row docs) docs)"
    by (auto simp: cosine_sim_def tfidf_matrix_def split: if_splits)
  then show ?thesis by (auto simp: cosine_similarity_def)
qed

lemma cosine_sim_defined:
  "vocabulary docs \<noteq> [] \<Longrightarrow> \<exists>M. cosine_sim docs = Inr M"
  by (simp add: cosine_sim_def tfidf_matrix_def)

section \<open>The similarity matrix\<close>

lemma cosine_sim_zero_entry:
  assumes "cosine_sim docs = Inr M" "i < length docs" "j < length docs"
    and "analyzer (docs ! j) = []"
  shows "M ! i ! j = 0"
proof -
  from assms(3) have "docs ! j \<in> set docs" by simp
  from tfidf_row_norm [OF this] assms(4) have "norm2 (tfidf_row docs (docs ! j)) = 0" by simp
  then have "\<forall>x\<in>set (tfidf_row docs (docs ! j)). x = 0" by (simp add: norm2_zero_iff)
  then have "dot (tfidf_row docs (docs ! i)) (tfidf_row docs (docs ! j)) = 0"
    by (rule dot_zero_right)
  with cosine_sim_entry [OF assms(1-3)] show ?thesis by simp
qed

text \<open>With rounding left out (the numbers of the model are reals), the matrix of a corpus
  with a non-empty vocabulary is square and symmetric, its entries lie between 0 and 1,
  and the diagonal entry of a movie is 1 when its feature string has a token and 0 when
  it has none. The floating-point matrix that the library computes agrees with this one
  up to rounding only.\<close>

lemma similarity_matrix_properties:
  assumes "vocabulary docs \<noteq> []"
  shows "\<exists>M. cosine_sim docs = Inr M \<and> length M = length docs
           \<and> (\<forall>i<length docs. length (M ! i) = length docs
                \<and> M ! i ! i = (if analyzer (docs ! i) = [] then 0 else 1)
                \<and> (\<forall>j<length docs. M ! i ! j = M ! j ! i \<and> 0 \<le> M ! i ! j \<and> M ! i ! j \<le> 1))"
proof -
  from cosine_sim_defined [OF assms] obtain M where M: "cosine_sim docs = Inr M" ..
  from cosine_sim_shape [OF M] have len: "length M = length docs"
    and rows: "\<forall>row\<in>set M. length row = length docs" by simp_all
  have row_len: "length (M ! i) = length docs" if "i < length docs" for i
    using rows len that by simp
  have diag: "M ! i ! i = (if analyzer (docs ! i) = [] then 0 else 1)" if i: "i < length docs" for i
  proof -
    from i have "docs ! i \<in> set docs" by simp
    from tfidf_row_norm [OF this] cosine_sim_entry [OF M i i]
    show ?thesis by (simp add: dot_self)
  qed
  have entry: "M ! i ! j = M ! j ! i \<and> 0 \<le> M ! i ! j \<and> M ! i ! j \<le> 1"
    if i: "i < length docs" and j: "j < length docs" for i j
  proof -
    let ?u = "tfidf_row docs (docs ! i)" and ?v = "tfidf_row docs (docs ! j)"
    have e: "M ! i ! j = dot ?u ?v" "M ! j ! i = dot ?v ?u"
      by (rule cosine_sim_entry [OF M i j], rule cosine_sim_entry [OF M j i])
    have sym: "dot ?u ?v = dot ?v ?u" by (rule dot_commute)
    have nn: "0 \<le> dot ?u ?v" by (rule dot_nonneg [OF tfidf_row_nonneg tfidf_row_nonneg])
    from i j have "docs ! i \<in> set docs" "docs ! j \<in> set docs" by simp_all
    then have "norm2 ?u \<le> 1" "norm2 ?v \<le> 1" by (simp_all add: tfidf_row_norm)
    moreover have "length ?u = length ?v" by (simp add: tfidf_row_length)
    ultimately have "dot ?u ?v \<le> 1" by (intro dot_unit_le_1)
    with sym nn e show ?thesis by simp
  qed
  from M len row_len diag entry show ?thesis by blast
qed

lemma short_features:
  "map i_content_features short_items = [''Action Crime Thriller 11'', ''X 9'']"
  by code_simp

lemma list2_eq: "length xs = 2 \<Longrightarrow> xs = [xs ! 0, xs ! 1]"
  by (cases xs; cases "tl xs") auto

text \<open>A movie with a one-letter genre tag and a title of nine characters has no token:
  all its similarities are 0, its own included.\<close>

lemma tokenless_movie_similarity:
  "cosine_sim (map i_content_features short_items) = Inr [[1, 0], [0, 0]]"
proof -
  let ?docs = "map i_content_features short_items"
  have v: "vocabulary ?docs \<noteq> []" by code_simp
  have n: "length ?docs = 2" unfolding short_features by simp
  have a0: "analyzer (?docs ! 0) \<noteq> []" and a1: "analyzer (?docs ! 1) = []" by code_simp+
  from cosine_sim_defined [OF v] obtain M where M: "cosine_sim ?docs = Inr M" ..
  from cosine_sim_shape [OF M] n have len: "length M = 2" "length (M ! 0) = 2" "length (M ! 1) = 2"
    by simp_all
  have i0: "0 < length ?docs" and i1: "1 < length ?docs" using n by simp_all
  have d00: "M ! 0 ! 0 = 1"
  proof -
    have "?docs ! 0 \<in> set ?docs" using i0 by (rule nth_mem)
    from tfidf_row_norm [OF this] a0 cosine_sim_entry [OF M i0 i0]
    show ?thesis by (simp add: dot_self)
  qed
  have z01: "M ! 0 ! 1 = 0" by (rule cosine_sim_zero_entry [OF M i0 i1 a1])
  have z11: "M ! 1 ! 1 = 0" by (rule cosine_sim_zero_entry [OF M i1 i1 a1])
  have "M ! 1 ! 0 = dot (tfidf_row ?docs (?docs ! 1)) (tfidf_row ?docs (?docs ! 0))"
    by (rule cosine_sim_entry [OF M i1 i0])
  also have "\<dots> = dot (tfidf_row ?docs (?docs ! 0)) (tfidf_row ?docs (?docs ! 1))"
    by (rule dot_commute)
  also have "\<dots> = M ! 0 ! 1" by (rule cosine_sim_entry [OF M i0 i1, symmetric])
  finally have z10: "M ! 1 ! 0 = 0" using z01 by simp
  have "M = [M ! 0, M ! 1]" by (rule list2_eq [OF len(1)])
  moreover have "M ! 0 = [M ! 0 ! 0, M ! 0 ! 1]" by (rule list2_eq [OF len(2)])
  moreover have "M ! 1 = [M ! 1 ! 0, M ! 1 ! 1]" by (rule list2_eq [OF len(3)])
  ultimately have "M = [[1, 0], [0, 0]]" using d00 z01 z10 z11 by simp
  with M show ?thesis by simp
qed

section \<open>The tokens of a feature string\<close>

lemma space_not_word: "is_space c \<Longrightarrow> \<not> is_word_char c"
  by (auto simp: is_space_def is_word_char_def Let_def)

lemma lower_char_space: "is_space c \<Longrightarrow> lower_char c = c"
  by (auto simp: is_space_def lower_char_def Let_def)

lemma of_char_lower_char:
  "(of_char (lower_char c) :: nat)
     = (if 65 \<le> (of_char c :: nat) \<and> (of_char c :: nat) \<le> 90 then of_char c + 32 else of_char c)"
  by (simp add: lower_char_def Let_def)

lemma lower_char_word: "is_word_char c \<Longrightarrow> is_word_char (lower_char c)"
  unfolding is_word_char_def Let_def of_char_lower_char by auto

lemma lower_char_idem: "lower_char (lower_char c) = lower_char c"
proof -
  define d where "d = lower_char c"
  have "\<not> (65 \<le> (of_char d :: nat) \<and> (of_char d :: nat) \<le> 90)"
    unfolding d_def of_char_lower_char by auto
  then have "lower_char d = d" unfolding lower_char_def Let_def by (rule if_not_P)
  then show ?thesis unfolding d_def .
qed

lemma token_acc_props:
  assumes "\<forall>c\<in>set cur. is_word_char c"
  shows "\<forall>tok\<in>set (token_acc cur s).
           2 \<le> length tok \<and> (\<forall>c\<in>set tok. is_word_char c) \<and> set tok \<subseteq> set cur \<union> set s"
  using assms
proof (induction s arbitrary: cur)
  case Nil
  then show ?case by simp
next
  case (Cons c cs)
  show ?case
  proof (cases "is_word_char c")
    case True
    with Cons.prems have "\<forall>d\<in>set (cur @ [c]). is_word_char d" by simp
    from Cons.IH [OF this] True show ?thesis by auto
  next
    case False
    have "\<forall>d\<in>set ([] :: string). is_word_char d" by simp
    from Cons.IH [OF this] False Cons.prems show ?thesis by auto
  qed
qed

lemma analyzer_tokens:
  assumes "tok \<in> set (analyzer doc)"
  shows "2 \<le> length tok \<and> (\<forall>c\<in>set tok. is_word_char c) \<and> lower tok = tok"
proof -
  have "\<forall>d\<in>set ([] :: string). is_word_char d" by simp
  from token_acc_props [OF this, of "lower doc"] assms
  have p: "2 \<le> length tok" "\<forall>c\<in>set tok. is_word_char c" "set tok \<subseteq> set (lower doc)"
    by (auto simp: analyzer_def)
  have "lower_char c = c" if "c \<in> set tok" for c
  proof -
    from that p(3) obtain d where "c = lower_char d" by (auto simp: lower_def)
    then show ?thesis by (simp add: lower_char_idem)
  qed
  then have "lower tok = tok" by (simp add: lower_def map_idI)
  with p show ?thesis by simp
qed

lemma split_acc_head:
  "cur \<noteq> [] \<Longrightarrow> \<exists>w ws. split_acc cur s = w # ws \<and> set cur \<subseteq> set w"
proof (induction s arbitrary: cur)
  case Nil
  then show ?case by simp
next
  case (Cons c cs)
  show ?case
  proof (cases "is_space c")
    case True
    with Cons.prems show ?thesis by simp
  next
    case False
    have "cur @ [c] \<noteq> []" by simp
    from Cons.IH [OF this] False show ?thesis by auto
  qed
qed

text \<open>Where every whitespace-separated word consists of two or more word characters, the
  tokens are the lowercased words.\<close>

lemma token_acc_split_acc:
  assumes "\<forall>w\<in>set (split_acc cur s). 2 \<le> length w \<and> (\<forall>c\<in>set w. is_word_char c)"
  shows "token_acc (lower cur) (lower s) = map lower (split_acc cur s)"
  using assms
proof (induction s arbitrary: cur)
  case Nil
  then show ?case by (auto simp: lower_def)
next
  case (Cons c cs)
  show ?case
  proof (cases "is_space c")
    case True
    then have nw: "\<not> is_word_char (lower_char c)"
      by (simp add: lower_char_space space_not_word)
    from Cons.prems True
    have good: "\<forall>w\<in>set (split_acc [] cs). 2 \<le> length w \<and> (\<forall>c\<in>set w. is_word_char c)"
      by (auto split: if_splits)
    from Cons.IH [OF good] have ih: "token_acc [] (lower cs) = map lower (split_acc [] cs)"
      by (simp add: lower_def)
    show ?thesis
    proof (cases "cur = []")
      case True
      with \<open>is_space c\<close> nw ih show ?thesis by (simp add: lower_def)
    next
      case False
      with Cons.prems \<open>is_space c\<close> have "2 \<le> length cur" by simp
      with False \<open>is_space c\<close> nw ih show ?thesis by (simp add: lower_def)
    qed
  next
    case False
    then have sp: "split_acc cur (c # cs) = split_acc (cur @ [c]) cs" by simp
    have "cur @ [c] \<noteq> []" by simp
    from split_acc_head [OF this, of cs] obtain w ws where
      w: "split_acc (cur @ [c]) cs = w # ws" and sub: "set (cur @ [c]) \<subseteq> set w" by blast
    from Cons.prems have "\<forall>d\<in>set w. is_word_char d" unfolding sp w by simp
    with sub have "is_word_char c" by auto
    then have wc: "is_word_char (lower_char c)" by (rule lower_char_word)
    from Cons.prems have "\<forall>w\<in>set (split_acc (cur @ [c]) cs). 2 \<le> length w \<and> (\<forall>c\<in>set w. is_word_char c)"
      unfolding sp .
    from Cons.IH [OF this] have "token_acc (lower (cur @ [c])) (lower cs) = map lower (split_acc (cur @ [c]) cs)" .
    with wc sp show ?thesis by (simp add: lower_def)
  qed
qed

lemma analyzer_whitespace_words:
  assumes "\<forall>w\<in>set (split_ws doc). 2 \<le> length w \<and> (\<forall>c\<in>set w. is_word_char c)"
  shows "analyzer doc = map lower (split_ws doc)"
  using token_acc_split_acc [of "[]" doc] assms by (simp add: analyzer_def split_ws_def lower_def)

text \<open>The tokens are the maximal runs of word characters that have two or more
  characters.\<close>

lemma token_acc_gap:
  "\<forall>c\<in>set g. \<not> is_word_char c \<Longrightarrow> token_acc [] (g @ s) = token_acc [] s"
  by (induction g) simp_all

lemma token_acc_run:
  "\<forall>c\<in>set r. is_word_char c \<Longrightarrow> token_acc cur (r @ s) = token_acc (cur @ r) s"
  by (induction r arbitrary: cur) simp_all

lemma token_acc_run_end:
  assumes "rest = [] \<or> \<not> is_word_char (hd rest)"
  shows "token_acc cur rest = (if 2 \<le> length cur then [cur] else []) @ token_acc [] rest"
  using assms by (cases rest) simp_all

lemma token_acc_runs_of:
  assumes "runs_of s R"
  shows "token_acc [] s = filter (\<lambda>t. 2 \<le> length t) R"
  using assms
proof (induction rule: runs_of.induct)
  case (no_run g)
  from token_acc_gap [OF this, of "[]"] show ?case by simp
next
  case (run g r rest R)
  have "token_acc [] (g @ r @ rest) = token_acc [] (r @ rest)"
    by (rule token_acc_gap [OF run.hyps(1)])
  also have "\<dots> = token_acc r rest"
    using token_acc_run [OF run.hyps(3), of "[]" rest] by simp
  also have "\<dots> = (if 2 \<le> length r then [r] else []) @ token_acc [] rest"
    by (rule token_acc_run_end [OF run.hyps(4)])
  finally show ?case by (simp add: run.IH)
qed

lemma runs_of_exists: "\<exists>R. runs_of s R"
proof (induction "length s" arbitrary: s rule: less_induct)
  case less
  define P where "P = (\<lambda>c. \<not> is_word_char c)"
  define g where "g = takeWhile P s"
  define t where "t = dropWhile P s"
  have s: "s = g @ t" by (simp add: g_def t_def)
  have gap: "\<forall>c\<in>set g. \<not> is_word_char c"
    unfolding g_def using set_takeWhileD [of _ P s] by (auto simp: P_def)
  show ?case
  proof (cases "t = []")
    case True
    with s have "s = g" by simp
    with gap have "runs_of s []" by (simp add: runs_of.no_run)
    then show ?thesis by blast
  next
    case False
    then have "\<not> P (hd t)" unfolding t_def by (rule hd_dropWhile)
    then have w: "is_word_char (hd t)" by (simp add: P_def)
    define r where "r = takeWhile is_word_char t"
    define rest where "rest = dropWhile is_word_char t"
    have t: "t = r @ rest" by (simp add: r_def rest_def)
    from False w have "r \<noteq> []" unfolding r_def by (cases t) simp_all
    moreover have "\<forall>c\<in>set r. is_word_char c"
      unfolding r_def using set_takeWhileD [of _ is_word_char t] by auto
    moreover have "rest = [] \<or> \<not> is_word_char (hd rest)"
      unfolding rest_def using hd_dropWhile [of is_word_char t] by blast
    moreover have "length rest < length s" using s t \<open>r \<noteq> []\<close> by simp
    from less [OF this] obtain R where "runs_of rest R" by blast
    ultimately have "runs_of (g @ r @ rest) (r # R)" using gap by (intro runs_of.run)
    with s t show ?thesis by auto
  qed
qed

lemma analyzer_runs_of:
  assumes "runs_of (lower doc) R"
  shows "analyzer doc = filter (\<lambda>t. 2 \<le> length t) R"
  unfolding analyzer_def by (rule token_acc_runs_of [OF assms])

section \<open>The content feature encoder\<close>

lemma tfidf_matrix_rows:
  assumes "vocabulary docs \<noteq> []"
  shows "tfidf_matrix docs = Inr (map (tfidf_row docs) docs)"
  using assms by (simp add: tfidf_matrix_def)

lemma weights_norm:
  "norm2 (map w V) = sqrt (\<Sum>u\<leftarrow>V. w u * w u)"
  by (simp add: norm2_def o_def)

lemma tfidf_row_entry:
  assumes "doc \<in> set docs" "j < length (vocabulary docs)"
  shows "tfidf_row docs doc ! j
           = (if analyzer doc = [] then 0
              else tf doc (vocabulary docs ! j) * idf docs (vocabulary docs ! j)
                   / sqrt (\<Sum>u\<leftarrow>vocabulary docs. (tf doc u * idf docs u) * (tf doc u * idf docs u)))"
proof (cases "analyzer doc = []")
  case True
  then have "norm2 (map (\<lambda>t. tf doc t * idf docs t) (vocabulary docs)) = 0"
    using weights_zero_iff [OF assms(1)] by simp
  moreover from True have "tf doc t = 0" for t by (simp add: tf_def)
  ultimately show ?thesis using assms(2) True by (simp add: tfidf_row_def l2_normalize_def)
next
  case False
  then have "norm2 (map (\<lambda>t. tf doc t * idf docs t) (vocabulary docs)) \<noteq> 0"
    using weights_zero_iff [OF assms(1)] by simp
  then show ?thesis using assms(2) False
    by (simp add: tfidf_row_def l2_normalize_def weights_norm)
qed

text \<open>
  C4 (amended). For every corpus with a non-empty vocabulary, the encoder lowercases each
  feature string and takes as tokens its maximal runs of word characters (letters,
  digits, underscore) that have two or more characters. This is whitespace splitting
  followed by lowercasing exactly on strings whose whitespace-separated words all consist
  of two or more word characters; a hyphenated genre name gives two tokens and a title
  length of one digit gives none. The vocabulary is the sorted list of the distinct
  tokens of the corpus. Each token t of the vocabulary is weighted by its raw count in
  the document times ln((1+N)/(1+df(t))) + 1, where N is the corpus size and df(t) the
  number of documents containing t, and each document vector is divided by its Euclidean
  norm (a document without tokens keeps the zero vector).
\<close>

theorem content_feature_encoder:
  assumes "vocabulary docs \<noteq> []" and "i < length docs"
  shows "(\<exists>R. runs_of (lower (docs ! i)) R)
       \<and> (\<forall>R. runs_of (lower (docs ! i)) R
              \<longrightarrow> analyzer (docs ! i) = filter (\<lambda>t. 2 \<le> length t) R)
       \<and> ((\<forall>w\<in>set (split_ws (docs ! i)). 2 \<le> length w \<and> (\<forall>c\<in>set w. is_word_char c))
            \<longrightarrow> analyzer (docs ! i) = map lower (split_ws (docs ! i)))
       \<and> set (vocabulary docs) = (\<Union>d\<in>set docs. set (analyzer d))
       \<and> sorted (vocabulary docs) \<and> distinct (vocabulary docs)
       \<and> (\<exists>X. tfidf_matrix docs = Inr X \<and> length X = length docs
              \<and> length (X ! i) = length (vocabulary docs)
              \<and> (\<forall>j<length (vocabulary docs).
                    X ! i ! j =
                      (let w = (\<lambda>t. real (count_list (analyzer (docs ! i)) t)
                                    * (ln ((1 + real (length docs))
                                           / (1 + real (length (filter (\<lambda>d. t \<in> set (analyzer d)) docs))))
                                       + 1))
                       in if analyzer (docs ! i) = [] then 0
                          else w (vocabulary docs ! j) / sqrt (\<Sum>u\<leftarrow>vocabulary docs. w u * w u))))"
proof (intro conjI)
  show "\<exists>R. runs_of (lower (docs ! i)) R" by (rule runs_of_exists)
  show "\<forall>R. runs_of (lower (docs ! i)) R
              \<longrightarrow> analyzer (docs ! i) = filter (\<lambda>t. 2 \<le> length t) R"
    using analyzer_runs_of by blast
  show "(\<forall>w\<in>set (split_ws (docs ! i)). 2 \<le> length w \<and> (\<forall>c\<in>set w. is_word_char c))
            \<longrightarrow> analyzer (docs ! i) = map lower (split_ws (docs ! i))"
    using analyzer_whitespace_words by blast
  show "set (vocabulary docs) = (\<Union>d\<in>set docs. set (analyzer d))" by (rule vocabulary_set)
  show "sorted (vocabulary docs)" by (rule vocabulary_sorted)
  show "distinct (vocabulary docs)" by (rule vocabulary_distinct)
  let ?X = "map (tfidf_row docs) docs"
  from assms(2) have mem: "docs ! i \<in> set docs" by simp
  have X: "tfidf_matrix docs = Inr ?X" by (rule tfidf_matrix_rows [OF assms(1)])
  have row: "?X ! i = tfidf_row docs (docs ! i)" using assms(2) by simp
  have len: "length (?X ! i) = length (vocabulary docs)" by (simp add: row tfidf_row_length)
  have entry: "\<forall>j<length (vocabulary docs).
      ?X ! i ! j =
        (let w = (\<lambda>t. real (count_list (analyzer (docs ! i)) t)
                      * (ln ((1 + real (length docs))
                             / (1 + real (length (filter (\<lambda>d. t \<in> set (analyzer d)) docs))))
                         + 1))
         in if analyzer (docs ! i) = [] then 0
            else w (vocabulary docs ! j) / sqrt (\<Sum>u\<leftarrow>vocabulary docs. w u * w u))"
    unfolding row Let_def using tfidf_row_entry [OF mem]
    by (simp add: tf_def idf_def doc_freq_def)
  from X len entry
  show "\<exists>X. tfidf_matrix docs = Inr X \<and> length X = length docs
              \<and> length (X ! i) = length (vocabulary docs)
              \<and> (\<forall>j<length (vocabulary docs).
                    X ! i ! j =
                      (let w = (\<lambda>t. real (count_list (analyzer (docs ! i)) t)
                                    * (ln ((1 + real (length docs))
                                           / (1 + real (length (filter (\<lambda>d. t \<in> set (analyzer d)) docs))))
                                       + 1))
                       in if analyzer (docs ! i) = [] then 0
                          else w (vocabulary docs ! j) / sqrt (\<Sum>u\<leftarrow>vocabulary docs. w u * w u)))"
    by (intro exI [of _ ?X]) simp
qed

lemma sci_fi_runs:
  "runs_of ''drama sci-fi thriller 9'' [''drama'', ''sci'', ''fi'', ''thriller'', ''9'']"
proof -
  have 5: "runs_of [] []" by (simp add: runs_of.no_run)
  have 4: "runs_of ('' '' @ ''9'' @ []) [''9'']"
    by (rule runs_of.run [OF _ _ _ _ 5]) (simp_all add: is_word_char_def)
  have 3: "runs_of ('' '' @ ''thriller'' @ '' 9'') [''thriller'', ''9'']"
    by (rule runs_of.run) (use 4 in \<open>simp_all add: is_word_char_def\<close>)
  have 2: "runs_of (''-'' @ ''fi'' @ '' thriller 9'') [''fi'', ''thriller'', ''9'']"
    by (rule runs_of.run) (use 3 in \<open>simp_all add: is_word_char_def\<close>)
  have 1: "runs_of ('' '' @ ''sci'' @ ''-fi thriller 9'') [''sci'', ''fi'', ''thriller'', ''9'']"
    by (rule runs_of.run) (use 2 in \<open>simp_all add: is_word_char_def\<close>)
  have "runs_of ([] @ ''drama'' @ '' sci-fi thriller 9'') [''drama'', ''sci'', ''fi'', ''thriller'', ''9'']"
    by (rule runs_of.run) (use 1 in \<open>simp_all add: is_word_char_def\<close>)
  then show ?thesis by simp
qed

theorem content_feature_encoder_witness:
  "analyzer (genre_docs ! 0) = [''action'', ''crime'', ''thriller'', ''11'']
   \<and> runs_of (lower (genre_docs ! 1)) [''drama'', ''sci'', ''fi'', ''thriller'', ''9'']
   \<and> analyzer (genre_docs ! 1) = [''drama'', ''sci'', ''fi'', ''thriller'']
   \<and> vocabulary genre_docs = [''11'', ''action'', ''crime'', ''drama'', ''fi'', ''sci'', ''thriller'']
   \<and> (\<exists>X. tfidf_matrix genre_docs = Inr X \<and> length X = 2 \<and> length (X ! 1) = 7
          \<and> X ! 1 ! 0 = 0
          \<and> X ! 1 ! 6 = 1 / sqrt (3 * ((ln (3 / 2) + 1) * (ln (3 / 2) + 1)) + 1))"
proof -
  have v: "vocabulary genre_docs \<noteq> []" by code_simp
  have i0: "0 < length genre_docs" and i1: "1 < length genre_docs" by code_simp+
  have w: "\<forall>w\<in>set (split_ws (genre_docs ! 0)). 2 \<le> length w \<and> (\<forall>c\<in>set w. is_word_char c)"
    by code_simp
  have l: "map lower (split_ws (genre_docs ! 0)) = [''action'', ''crime'', ''thriller'', ''11'']"
    by code_simp
  have lw: "lower (genre_docs ! 1) = ''drama sci-fi thriller 9''" by code_simp
  have r: "runs_of (lower (genre_docs ! 1)) [''drama'', ''sci'', ''fi'', ''thriller'', ''9'']"
    unfolding lw by (rule sci_fi_runs)
  have voc: "vocabulary genre_docs = [''11'', ''action'', ''crime'', ''drama'', ''fi'', ''sci'', ''thriller'']"
    by code_simp
  note t0 = content_feature_encoder [OF v i0]
  note t1 = content_feature_encoder [OF v i1]
  from t0 w have a0: "analyzer (genre_docs ! 0) = map lower (split_ws (genre_docs ! 0))" by blast
  from t1 r have "analyzer (genre_docs ! 1)
      = filter (\<lambda>t. 2 \<le> length t) [''drama'', ''sci'', ''fi'', ''thriller'', ''9'']" by blast
  then have a1: "analyzer (genre_docs ! 1) = [''drama'', ''sci'', ''fi'', ''thriller'']" by simp
  have d0: "genre_docs ! 0 = ''Action Crime Thriller 11''" and d1: "genre_docs ! 1 = ''Drama Sci-Fi Thriller 9''"
    by (simp_all add: genre_docs_def)
  have df: "length (filter (\<lambda>d. t \<in> set (analyzer d)) genre_docs)
      = (if t \<in> set (analyzer (genre_docs ! 0)) then 1 else 0)
        + (if t \<in> set (analyzer (genre_docs ! 1)) then 1 else 0)" for t
    by (simp add: genre_docs_def)
  from t1 obtain X where X: "tfidf_matrix genre_docs = Inr X" "length X = length genre_docs"
    "length (X ! 1) = length (vocabulary genre_docs)"
    and e: "\<forall>j<length (vocabulary genre_docs).
                    X ! 1 ! j =
                      (let w = (\<lambda>t. real (count_list (analyzer (genre_docs ! 1)) t)
                                    * (ln ((1 + real (length genre_docs))
                                           / (1 + real (length (filter (\<lambda>d. t \<in> set (analyzer d)) genre_docs))))
                                       + 1))
                       in if analyzer (genre_docs ! 1) = [] then 0
                          else w (vocabulary genre_docs ! j) / sqrt (\<Sum>u\<leftarrow>vocabulary genre_docs. w u * w u))"
    by blast
  have n: "length genre_docs = 2" by (simp add: genre_docs_def)
  from e have e0: "X ! 1 ! 0 = 0" unfolding voc df a1 a0 l n by (simp add: Let_def)
  from e have e6: "X ! 1 ! 6 = 1 / sqrt (3 * ((ln (3 / 2) + 1) * (ln (3 / 2) + 1)) + 1)"
    unfolding voc df a1 a0 l n by (simp add: Let_def)
  from X e0 e6 n voc have m: "\<exists>X. tfidf_matrix genre_docs = Inr X \<and> length X = 2 \<and> length (X ! 1) = 7
          \<and> X ! 1 ! 0 = 0
          \<and> X ! 1 ! 6 = 1 / sqrt (3 * ((ln (3 / 2) + 1) * (ln (3 / 2) + 1)) + 1)" by auto
  from a0 l have a0': "analyzer (genre_docs ! 0) = [''action'', ''crime'', ''thriller'', ''11'']"
    by (rule trans)
  from a0' r a1 voc m show ?thesis by (intro conjI)
qed

theorem whitespace_token_counterexample:
  "map i_content_features pi_items = [''Drama Sci-Fi Thriller 9'']
   \<and> analyzer ''Drama Sci-Fi Thriller 9'' = [''drama'', ''sci'', ''fi'', ''thriller'']
   \<and> split_ws ''Drama Sci-Fi Thriller 9'' = [''Drama'', ''Sci-Fi'', ''Thriller'', ''9'']
   \<and> vocabulary (map i_content_features pi_items) = [''drama'', ''fi'', ''sci'', ''thriller'']"
  by code_simp

section \<open>Similarity of concrete catalogs\<close>

lemma tfidf_row_entry_zero:
  assumes "doc \<in> set docs" "j < length (vocabulary docs)" "vocabulary docs ! j \<notin> set (analyzer doc)"
  shows "tfidf_row docs doc ! j = 0"
  using tfidf_row_entry [OF assms(1,2)] assms(3) by (simp add: tf_zero_iff [symmetric])

lemma tfidf_row_entry_pos:
  assumes "doc \<in> set docs" "j < length (vocabulary docs)" "vocabulary docs ! j \<in> set (analyzer doc)"
  shows "0 < tfidf_row docs doc ! j"
proof -
  let ?W = "map (\<lambda>t. tf doc t * idf docs t) (vocabulary docs)"
  from assms(3) have ne: "analyzer doc \<noteq> []" by auto
  then have "norm2 ?W \<noteq> 0" using weights_zero_iff [OF assms(1)] by simp
  then have n: "0 < norm2 ?W" using norm2_nonneg [of ?W] by simp
  have "0 < tf doc (vocabulary docs ! j)" using tf_ge_1 [OF assms(3)] by simp
  moreover have "0 < idf docs (vocabulary docs ! j)" using idf_ge_1 [of docs "vocabulary docs ! j"] by simp
  ultimately have "0 < tf doc (vocabulary docs ! j) * idf docs (vocabulary docs ! j)" by simp
  with n have "0 < tf doc (vocabulary docs ! j) * idf docs (vocabulary docs ! j) / norm2 ?W" by simp
  moreover have "tfidf_row docs doc ! j = tf doc (vocabulary docs ! j) * idf docs (vocabulary docs ! j) / norm2 ?W"
    using \<open>norm2 ?W \<noteq> 0\<close> assms(2) by (simp add: tfidf_row_def l2_normalize_def)
  ultimately show ?thesis by simp
qed

lemma dot_Nil: "dot [] [] = 0"
  by (simp add: dot_def)

lemma dot_Cons: "dot (a # u) (b # v) = a * b + dot u v"
  by (simp add: dot_def)

lemma dot_pointwise_zero:
  assumes "length u = length v" "\<forall>k<length u. u ! k = 0 \<or> v ! k = 0"
  shows "dot u v = 0"
  using assms
proof (induction u v rule: list_induct2)
  case Nil
  show ?case by (rule dot_Nil)
next
  case (Cons a u b v)
  from Cons.prems have "a = 0 \<or> b = 0" by force
  then have ab: "a * b = 0" by auto
  from Cons.prems have "\<forall>k<length u. u ! k = 0 \<or> v ! k = 0" by force
  then have "dot u v = 0" by (rule Cons.IH)
  with ab show ?case by (simp add: dot_Cons)
qed

lemma dot_pos:
  assumes "length u = length v" "\<forall>x\<in>set u. 0 \<le> x" "\<forall>x\<in>set v. 0 \<le> x"
    and "k < length u" "0 < u ! k" "0 < v ! k"
  shows "0 < dot u v"
  using assms
proof (induction u v arbitrary: k rule: list_induct2)
  case Nil
  then show ?case by simp
next
  case (Cons a u b v)
  from Cons.prems have nn: "0 \<le> a" "0 \<le> b" "\<forall>x\<in>set u. 0 \<le> x" "\<forall>x\<in>set v. 0 \<le> x" by simp_all
  have rest: "0 \<le> dot u v" by (rule dot_nonneg [OF nn(3,4)])
  have eq: "dot (a # u) (b # v) = a * b + dot u v" by (rule dot_Cons)
  show ?case
  proof (cases k)
    case 0
    with Cons.prems have "0 < a * b" by simp
    with rest show ?thesis unfolding eq by simp
  next
    case (Suc k')
    with Cons.prems have "k' < length u" "0 < u ! k'" "0 < v ! k'" by simp_all
    from Cons.IH [OF nn(3,4) this] have "0 < dot u v" .
    moreover from nn have "0 \<le> a * b" by simp
    ultimately show ?thesis unfolding eq by simp
  qed
qed

lemma dot_strict:
  assumes "length u = length v" "k < length u" "u ! k \<noteq> v ! k"
  shows "2 * dot u v < dot u u + dot v v"
  using assms
proof (induction u v arbitrary: k rule: list_induct2)
  case Nil
  then show ?case by simp
next
  case (Cons a u b v)
  have eq: "dot (a # u) (b # v) = a * b + dot u v" "dot (a # u) (a # u) = a * a + dot u u"
    "dot (b # v) (b # v) = b * b + dot v v" by (rule dot_Cons)+
  have sq: "2 * (a * b) \<le> a * a + b * b"
    using zero_le_square [of "a - b"] by (simp add: algebra_simps)
  have weak: "2 * dot u v \<le> dot u u + dot v v" by (rule dot_le_half_squares [OF Cons.hyps])
  show ?case
  proof (cases k)
    case 0
    with Cons.prems have "a \<noteq> b" by simp
    then consider "a < b" | "b < a" by linarith
    then have "0 < (a - b) * (a - b)"
    proof cases
      case 1
      then have "a - b < 0" by simp
      from mult_neg_neg [OF this this] show ?thesis .
    next
      case 2
      then have "0 < a - b" by simp
      from mult_pos_pos [OF this this] show ?thesis .
    qed
    then have "2 * (a * b) < a * a + b * b" by (simp add: algebra_simps)
    with weak show ?thesis unfolding eq by simp
  next
    case (Suc k')
    with Cons.prems have "k' < length u" "u ! k' \<noteq> v ! k'" by simp_all
    from Cons.IH [OF this] sq show ?thesis unfolding eq by simp
  qed
qed

text \<open>Two movies without a common token have similarity 0; two movies with a common token
  have a positive similarity, below 1 when some token belongs to only one of them.\<close>

lemma cosine_sim_disjoint:
  assumes "cosine_sim docs = Inr M" "i < length docs" "j < length docs"
    and "set (analyzer (docs ! i)) \<inter> set (analyzer (docs ! j)) = {}"
  shows "M ! i ! j = 0"
proof -
  from assms(2,3) have mem: "docs ! i \<in> set docs" "docs ! j \<in> set docs" by simp_all
  have "dot (tfidf_row docs (docs ! i)) (tfidf_row docs (docs ! j)) = 0"
  proof (rule dot_pointwise_zero)
    show "length (tfidf_row docs (docs ! i)) = length (tfidf_row docs (docs ! j))"
      by (simp add: tfidf_row_length)
    show "\<forall>k<length (tfidf_row docs (docs ! i)).
            tfidf_row docs (docs ! i) ! k = 0 \<or> tfidf_row docs (docs ! j) ! k = 0"
    proof (intro allI impI)
      fix k assume "k < length (tfidf_row docs (docs ! i))"
      then have k: "k < length (vocabulary docs)" by (simp add: tfidf_row_length)
      from assms(4) have "vocabulary docs ! k \<notin> set (analyzer (docs ! i))
          \<or> vocabulary docs ! k \<notin> set (analyzer (docs ! j))" by blast
      then show "tfidf_row docs (docs ! i) ! k = 0 \<or> tfidf_row docs (docs ! j) ! k = 0"
        using tfidf_row_entry_zero [OF mem(1) k] tfidf_row_entry_zero [OF mem(2) k] by blast
    qed
  qed
  with cosine_sim_entry [OF assms(1-3)] show ?thesis by simp
qed

lemma cosine_sim_between:
  assumes "cosine_sim docs = Inr M" "i < length docs" "j < length docs"
    and "s \<in> set (analyzer (docs ! i))" "s \<in> set (analyzer (docs ! j))"
    and "t \<in> set (analyzer (docs ! i))" "t \<notin> set (analyzer (docs ! j))"
  shows "0 < M ! i ! j \<and> M ! i ! j < 1"
proof -
  let ?u = "tfidf_row docs (docs ! i)" and ?v = "tfidf_row docs (docs ! j)"
  from assms(2,3) have mem: "docs ! i \<in> set docs" "docs ! j \<in> set docs" by simp_all
  have len: "length ?u = length ?v" by (simp add: tfidf_row_length)
  from assms(4) mem(1) have "s \<in> set (vocabulary docs)" unfolding vocabulary_set by blast
  then obtain a where a: "a < length (vocabulary docs)" "vocabulary docs ! a = s"
    by (auto simp: in_set_conv_nth)
  from assms(6) mem(1) have "t \<in> set (vocabulary docs)" unfolding vocabulary_set by blast
  then obtain b where b: "b < length (vocabulary docs)" "vocabulary docs ! b = t"
    by (auto simp: in_set_conv_nth)
  have "0 < ?u ! a" "0 < ?v ! a"
    using tfidf_row_entry_pos [OF mem(1) a(1)] tfidf_row_entry_pos [OF mem(2) a(1)] assms(4,5) a(2)
    by simp_all
  moreover have "a < length ?u" using a(1) by (simp add: tfidf_row_length)
  ultimately have pos: "0 < dot ?u ?v"
    by (intro dot_pos [OF len tfidf_row_nonneg tfidf_row_nonneg])
  have "0 < ?u ! b" "?v ! b = 0"
    using tfidf_row_entry_pos [OF mem(1) b(1)] tfidf_row_entry_zero [OF mem(2) b(1)] assms(6,7) b(2)
    by simp_all
  then have "?u ! b \<noteq> ?v ! b" by simp
  moreover have "b < length ?u" using b(1) by (simp add: tfidf_row_length)
  ultimately have "2 * dot ?u ?v < dot ?u ?u + dot ?v ?v" by (intro dot_strict [OF len])
  moreover have "dot ?u ?u = 1" "dot ?v ?v = 1"
    using assms(4,5) by (auto simp: dot_self tfidf_row_norm [OF mem(1)] tfidf_row_norm [OF mem(2)])
  ultimately have "dot ?u ?v < 1" by simp
  with pos cosine_sim_entry [OF assms(1-3)] show ?thesis by simp
qed

lemma cosine_sim_same_doc:
  assumes "cosine_sim docs = Inr M" "i < length docs" "j < length docs"
    and "docs ! i = docs ! j" "analyzer (docs ! i) \<noteq> []"
  shows "M ! i ! j = 1"
proof -
  from assms(2) have "docs ! i \<in> set docs" by simp
  from tfidf_row_norm [OF this] assms(5) cosine_sim_entry [OF assms(1-3)] assms(4)
  show ?thesis by (simp add: dot_self)
qed

section \<open>Properties of the content-based query\<close>

lemma descending_sort_ranking: "descending_sort sort_values \<Longrightarrow> ranking ser (sort_values ser)"
  by (simp add: descending_sort_def ranking_def)

lemma sort_values_stable_descending: "descending_sort sort_values_stable"
proof -
  have "sorted_wrt (\<lambda>p q. snd q \<le> snd p) (sort_values_stable ser)" for ser
  proof -
    have "sorted (map (\<lambda>p. - snd p) (sort_values_stable ser))"
      unfolding sort_values_stable_def by (rule sorted_sort_key)
    then show ?thesis by (simp add: sorted_map)
  qed
  then show ?thesis by (simp add: descending_sort_def sort_values_stable_def)
qed

lemma sort_values_stable_ties:
  "filter (\<lambda>p. snd p = v) (sort_values_stable ser) = filter (\<lambda>p. snd p = v) ser"
  using sort_key_stable [of "\<lambda>p. - snd p" "- v" ser] by (simp add: sort_values_stable_def)

lemma filter_fst_unique:
  assumes "distinct (map fst cs)" "(l, v) \<in> set cs"
  shows "filter (\<lambda>c. fst c = l) cs = [(l, v)]"
  using assms
proof (induction cs)
  case Nil
  then show ?case by simp
next
  case (Cons c cs)
  show ?case
  proof (cases "c = (l, v)")
    case True
    with Cons.prems have "\<forall>d\<in>set cs. fst d \<noteq> l" by force
    then have "filter (\<lambda>c. fst c = l) cs = []" by (simp add: filter_empty_conv)
    with True show ?thesis by simp
  next
    case False
    with Cons.prems have in_cs: "(l, v) \<in> set cs" by simp
    from Cons.prems(1) have "fst c \<notin> fst ` set cs" by simp
    moreover from in_cs have "l \<in> fst ` set cs" by force
    ultimately have "fst c \<noteq> l" by auto
    moreover from Cons.IH Cons.prems in_cs have "filter (\<lambda>c. fst c = l) cs = [(l, v)]" by simp
    ultimately show ?thesis by simp
  qed
qed

lemma column_lookup:
  assumes "frame_for items sd" "distinct (map i_movie_label items)" "m \<in> set items"
  shows "\<exists>vals. (i_movie_label m, vals) \<in> set (frame_columns sd) \<and> length vals = length items
           \<and> column sd (i_movie_label m) = Inr (zip (map i_movie_label items) vals)"
proof -
  from assms(1) have fst_cols: "map fst (frame_columns sd) = map i_movie_label items"
    and idx: "frame_index sd = map i_movie_label items"
    and len: "\<forall>c\<in>set (frame_columns sd). length (snd c) = length items"
    by (simp_all add: frame_for_def)
  from assms(3) have "i_movie_label m \<in> set (map fst (frame_columns sd))"
    unfolding fst_cols by simp
  then obtain vals where v: "(i_movie_label m, vals) \<in> set (frame_columns sd)" by auto
  from assms(2) have "distinct (map fst (frame_columns sd))" unfolding fst_cols .
  from filter_fst_unique [OF this v]
  have "column sd (i_movie_label m) = Inr (zip (map i_movie_label items) vals)"
    by (simp add: column_def idx)
  moreover from len v have "length vals = length items" by force
  ultimately show ?thesis using v by blast
qed

lemma slice_ranks:
  assumes "0 \<le> k"
  shows "py_slice 1 (k + 1) r = take (nat k) (tl r)"
proof (cases r)
  case Nil
  then show ?thesis by (simp add: py_slice_def slice_bound_def)
next
  case (Cons a as)
  from assms have "nat (k + 1) = Suc (nat k)" by simp
  then show ?thesis using assms
    by (simp add: py_slice_def slice_bound_def Cons min_def drop_Suc)
qed

lemma match_in_items:
  assumes "filter P items = m # ms"
  shows "m \<in> set items"
proof -
  have "m \<in> set (filter P items)" unfolding assms by simp
  then show ?thesis by simp
qed

lemma filter_key_unique:
  assumes "distinct (map g xs)" "k \<in> set xs"
  shows "filter (\<lambda>x. g k = g x) xs = [k]"
  using assms
proof (induction xs)
  case Nil
  then show ?case by simp
next
  case (Cons x xs)
  show ?case
  proof (cases "k = x")
    case True
    from Cons.prems(1) have "\<forall>y\<in>set xs. g x \<noteq> g y" by force
    then have "filter (\<lambda>y. g x = g y) xs = []" by (simp add: filter_empty_conv)
    with True show ?thesis by simp
  next
    case False
    with Cons.prems have k: "k \<in> set xs" by simp
    from k have "g k \<in> g ` set xs" by (rule imageI)
    moreover from Cons.prems(1) have "g x \<notin> g ` set xs" by simp
    ultimately have "g k \<noteq> g x" by metis
    moreover from Cons.IH Cons.prems(1) k have "filter (\<lambda>x. g k = g x) xs = [k]" by simp
    ultimately show ?thesis by simp
  qed
qed

text \<open>Where no two entries have the same score, the descending order is unique: every
  descending sort returns what the stable one returns.\<close>

lemma descending_sort_unique:
  assumes "descending_sort sort_values" "distinct (map snd ser)"
  shows "sort_values ser = sort_values_stable ser"
proof -
  let ?r = "sort_values ser"
  from assms(1) have m: "mset ?r = mset ser"
    and s: "sorted_wrt (\<lambda>p q. snd q \<le> snd p) ?r" by (simp_all add: descending_sort_def)
  from m have "mset (map snd ?r) = mset (map snd ser)" by simp
  with assms(2) have d: "distinct (map snd ?r)" by (metis mset_eq_imp_distinct_iff)
  from s have sorted: "sorted (map (\<lambda>p. - snd p) ?r)" by (simp add: sorted_map)
  have "sort_key (\<lambda>p. - snd p) ser = ?r"
  proof (rule properties_for_sort_key [OF m _ sorted])
    fix k assume k: "k \<in> set ?r"
    with m have k': "k \<in> set ser" by (metis mset_eq_setD)
    from filter_key_unique [OF d k] have "filter (\<lambda>x. snd k = snd x) ?r = [k]" .
    moreover from filter_key_unique [OF assms(2) k'] have "filter (\<lambda>x. snd k = snd x) ser = [k]" .
    ultimately show "filter (\<lambda>x. - snd k = - snd x) ?r = filter (\<lambda>x. - snd k = - snd x) ser"
      by simp
  qed
  then show ?thesis by (simp add: sort_values_stable_def)
qed

text \<open>
  C1 (amended). For every title with a case-insensitive exact match, a catalog whose labels
  are pairwise different and every k \<ge> 0, the rows returned are exactly the catalog rows
  whose labels stand at positions 1 to k of the matched movie's similarity column as the
  library sort arranges it: by descending similarity, which fixes the arrangement when no
  two similarities of the column are equal, and with equal similarities in whatever order
  the sort leaves them (not necessarily catalog order). The returned sequence lists these
  rows in catalog order, not in ranked order.
\<close>

theorem content_query_ranked:
  assumes "descending_sort sort_values"
    and "frame_for items sd" and "distinct (map i_movie_label items)"
    and "filter (\<lambda>it. lower (i_title it) = lower ttl) items = m # ms" and "0 \<le> k"
  shows "\<exists>vals. (i_movie_label m, vals) \<in> set (frame_columns sd) \<and> length vals = length items
           \<and> ranking (zip (map i_movie_label items) vals)
                      (sort_values (zip (map i_movie_label items) vals))
           \<and> (distinct vals \<longrightarrow> sort_values (zip (map i_movie_label items) vals)
                                   = sort_values_stable (zip (map i_movie_label items) vals))
           \<and> content_based_movie_recommendations sort_values ttl sd items k
               = Inr (Frame (filter
                   (\<lambda>it. i_movie_label it
                            \<in> fst ` set (take (nat k)
                                 (tl (sort_values (zip (map i_movie_label items) vals)))))
                   items))"
proof -
  from assms(4) have m: "m \<in> set items" by (rule match_in_items)
  from column_lookup [OF assms(2,3) m] obtain vals where
    v: "(i_movie_label m, vals) \<in> set (frame_columns sd)" and len: "length vals = length items"
    and c: "column sd (i_movie_label m) = Inr (zip (map i_movie_label items) vals)" by blast
  let ?ser = "zip (map i_movie_label items) vals"
  let ?r = "sort_values ?ser"
  have res: "content_based_movie_recommendations sort_values ttl sd items k
          = Inr (Frame (filter (\<lambda>it. i_movie_label it \<in> fst ` set (take (nat k) (tl ?r))) items))"
    by (simp add: content_based_movie_recommendations_def assms(4) c slice_ranks [OF assms(5)])
  have rk: "ranking ?ser ?r" by (rule descending_sort_ranking [OF assms(1)])
  have uniq: "?r = sort_values_stable ?ser" if "distinct vals"
  proof -
    from len have "map snd ?ser = vals" by simp
    with that have "distinct (map snd ?ser)" by simp
    then show ?thesis by (rule descending_sort_unique [OF assms(1)])
  qed
  from v len rk uniq res show ?thesis by blast
qed

lemma heat_labels:
  "map i_movie_label heat_items
     = [''Heat (1995) (Action|Crime|Thriller)'', ''Toy Story (1995) (Adventure|Animation)'',
        ''Ronin (1998) (Action|Crime|Thriller)'']"
  by code_simp

lemma heat_frame: "frame_for heat_items heat_sim"
proof -
  have "length heat_items = 3" using arg_cong [OF heat_labels, of length] by simp
  then show ?thesis unfolding frame_for_def heat_sim_def heat_labels by simp
qed

lemma heat_match:
  "filter (\<lambda>it. lower (i_title it) = lower ''heat (1995)'') heat_items = heat_items ! 0 # []"
  by code_simp

lemma heat_columns:
  "frame_columns heat_sim
     = [(''Heat (1995) (Action|Crime|Thriller)'', [1, 0, 9 / 10]),
        (''Toy Story (1995) (Adventure|Animation)'', [0, 1, 0]),
        (''Ronin (1998) (Action|Crime|Thriller)'', [9 / 10, 0, 1])]"
  by (simp add: heat_sim_def heat_labels)

lemma heat_label_0: "i_movie_label (heat_items ! 0) = ''Heat (1995) (Action|Crime|Thriller)''"
  by code_simp

theorem content_query_ranked_witness:
  "sort_values_stable (zip (map i_movie_label heat_items) [1, 0, 9 / 10])
     = [(''Heat (1995) (Action|Crime|Thriller)'', 1),
        (''Ronin (1998) (Action|Crime|Thriller)'', 9 / 10),
        (''Toy Story (1995) (Adventure|Animation)'', 0)]
   \<and> content_based_movie_recommendations sort_values_stable ''heat (1995)'' heat_sim heat_items 1
       = Inr (Frame (filter
           (\<lambda>it. i_movie_label it
                    \<in> fst ` set (take (nat 1)
                         (tl (sort_values_stable (zip (map i_movie_label heat_items) [1, 0, 9 / 10])))))
           heat_items))
   \<and> content_based_movie_recommendations sort_values_stable ''heat (1995)'' heat_sim heat_items 1
       = Inr (Frame [heat_items ! 2])"
proof -
  have d: "distinct (map i_movie_label heat_items)" unfolding heat_labels by simp
  have k: "(0::int) \<le> 1" by simp
  from content_query_ranked [OF sort_values_stable_descending heat_frame d heat_match k]
  obtain vals where v: "(i_movie_label (heat_items ! 0), vals) \<in> set (frame_columns heat_sim)"
    and r: "content_based_movie_recommendations sort_values_stable ''heat (1995)'' heat_sim heat_items 1
       = Inr (Frame (filter
           (\<lambda>it. i_movie_label it
                    \<in> fst ` set (take (nat 1)
                         (tl (sort_values_stable (zip (map i_movie_label heat_items) vals)))))
           heat_items))" by blast
  from v have vals: "vals = [1, 0, 9 / 10]" unfolding heat_columns heat_label_0 by simp
  have s: "sort_values_stable (zip (map i_movie_label heat_items) [1, 0, 9 / 10])
     = [(''Heat (1995) (Action|Crime|Thriller)'', 1),
        (''Ronin (1998) (Action|Crime|Thriller)'', 9 / 10),
        (''Toy Story (1995) (Adventure|Animation)'', 0)]" by code_simp
  have e: "content_based_movie_recommendations sort_values_stable ''heat (1995)'' heat_sim heat_items 1
       = Inr (Frame [heat_items ! 2])" by code_simp
  from s r [unfolded vals] e show ?thesis by (intro conjI)
qed

theorem catalog_order_counterexample:
  "content_based_movie_recommendations sort_values_stable ''Heat (1995)'' heat_sim heat_items 2
     = Inr (Frame [heat_items ! 1, heat_items ! 2])
   \<and> map i_title [heat_items ! 1, heat_items ! 2] = [''Toy Story (1995)'', ''Ronin (1998)'']
   \<and> map fst (take 2 (tl (sort_values_stable (zip (map i_title heat_items) [1, 0, 9 / 10]))))
     = [''Ronin (1998)'', ''Toy Story (1995)'']"
  by code_simp

lemma ranking_set: "ranking ser r \<Longrightarrow> set r = set ser"
  unfolding ranking_def by (metis mset_eq_setD)


lemma ranking_distinct:
  assumes "ranking ser r" "distinct (map fst ser)"
  shows "distinct (map fst r)"
proof -
  from assms(1) have "mset (map fst r) = mset (map fst ser)" by (simp add: ranking_def)
  with assms(2) show ?thesis by (metis mset_eq_imp_distinct_iff)
qed

text \<open>The entry that is strictly above all others stands at rank 0.\<close>

lemma ranking_head:
  assumes "ranking ser r" "(l, v) \<in> set ser" "\<forall>p\<in>set ser. fst p \<noteq> l \<longrightarrow> snd p < v"
  shows "\<exists>a as. r = a # as \<and> fst a = l"
proof -
  from assms(1,2) have in_r: "(l, v) \<in> set r" by (simp add: ranking_set)
  then obtain a as where r: "r = a # as" by (cases r) auto
  from assms(1) have "sorted_wrt (\<lambda>p q. snd q \<le> snd p) (a # as)"
    unfolding r ranking_def by blast
  then have top: "\<forall>q\<in>set as. snd q \<le> snd a" by simp
  have "v \<le> snd a"
  proof (cases "(l, v) = a")
    case True
    then show ?thesis by auto
  next
    case False
    with in_r r have "(l, v) \<in> set as" by auto
    with top show ?thesis by force
  qed
  moreover have "a \<in> set ser" using ranking_set [OF assms(1)] r by auto
  ultimately have "fst a = l" using assms(3) by force
  with r show ?thesis by blast
qed





text \<open>Whether the matched movie is among the returned rows depends on its rank. The
  notebook takes it to be at rank 0, which the slice skips.\<close>

text \<open>If the matched movie's own entry is strictly above every other entry of its column,
  it stands at rank 0 and is not returned.\<close>

lemma strict_top_excludes_query_movie:
  assumes "descending_sort sort_values"
    and "frame_for items sd" and "distinct (map i_movie_label items)"
    and "filter (\<lambda>it. lower (i_title it) = lower ttl) items = m # ms" and "0 \<le> k"
    and "(i_movie_label m, vals) \<in> set (frame_columns sd)"
    and "(i_movie_label m, v) \<in> set (zip (map i_movie_label items) vals)"
    and "\<forall>p\<in>set (zip (map i_movie_label items) vals). fst p \<noteq> i_movie_label m \<longrightarrow> snd p < v"
  shows "\<exists>res. content_based_movie_recommendations sort_values ttl sd items k = Inr (Frame res)
           \<and> m \<notin> set res"
proof -
  let ?L = "map i_movie_label items"
  from assms(4) have m: "m \<in> set items" by (rule match_in_items)
  from column_lookup [OF assms(2,3) m] obtain vals' where
    v': "(i_movie_label m, vals') \<in> set (frame_columns sd)" and len: "length vals' = length items"
    and c: "column sd (i_movie_label m) = Inr (zip ?L vals')" by blast
  from assms(2,3) have "distinct (map fst (frame_columns sd))" by (simp add: frame_for_def)
  from filter_fst_unique [OF this v'] filter_fst_unique [OF this assms(6)]
  have same: "vals' = vals" by simp
  let ?ser = "zip ?L vals"
  let ?r = "sort_values ?ser"
  have rk: "ranking ?ser ?r" by (rule descending_sort_ranking [OF assms(1)])
  from len same have fst_ser: "map fst ?ser = ?L" by simp
  from ranking_head [OF rk assms(7,8)] obtain a as where r: "?r = a # as"
    and a: "fst a = i_movie_label m" by blast
  from ranking_distinct [OF rk] assms(3) fst_ser have "distinct (map fst ?r)" by simp
  then have not_in: "i_movie_label m \<notin> fst ` set as" unfolding r using a by auto
  let ?T = "map fst (take (nat k) as)"
  let ?res = "filter (\<lambda>it. i_movie_label it \<in> set ?T) items"
  have res: "content_based_movie_recommendations sort_values ttl sd items k = Inr (Frame ?res)"
    by (simp add: content_based_movie_recommendations_def assms(4) c same
        slice_ranks [OF assms(5)] r)
  have "i_movie_label m \<notin> set ?T" using not_in by (auto dest: in_set_takeD)
  then have "m \<notin> set ?res" by simp
  with res show ?thesis by blast
qed

lemma mset_pair:
  assumes "mset xs = {#a, b#}"
  shows "xs = [a, b] \<or> xs = [b, a]"
proof -
  from assms have "size (mset xs) = 2" by simp
  then have "length xs = 2" by simp
  then obtain u v where xs: "xs = [u, v]" by (cases xs; cases "tl xs") auto
  from assms have "{#u, v#} = {#a, b#}" unfolding xs by simp
  then have "(u = a \<and> v = b) \<or> (u = b \<and> v = a)" by (auto simp: add_eq_conv_ex)
  with xs show ?thesis by auto
qed

text \<open>Two movies with the same genres and the same title length have the same feature
  string, so each has similarity 1 to the other as to itself. Whatever order the sort
  gives the two equal entries, one of the two queries returns its own movie.\<close>

lemma tie_returns_query_movie:
  assumes "descending_sort sort_values"
  shows "content_based_movie_recommendations sort_values ''Heat (1995)'' twin_sim twin_items 1
           = Inr (Frame [twin_items ! 0])
       \<or> content_based_movie_recommendations sort_values ''Heat (1986)'' twin_sim twin_items 1
           = Inr (Frame [twin_items ! 1])"
proof -
  let ?a = "(''Heat (1995) (Action|Crime|Thriller)'', 1 :: real)"
  let ?b = "(''Heat (1986) (Action|Crime|Thriller)'', 1 :: real)"
  have m0: "filter (\<lambda>it. lower (i_title it) = lower ''Heat (1995)'') twin_items = [twin_items ! 0]"
    and m1: "filter (\<lambda>it. lower (i_title it) = lower ''Heat (1986)'') twin_items = [twin_items ! 1]"
    by code_simp+
  have c0: "column twin_sim (i_movie_label (twin_items ! 0)) = Inr [?a, ?b]"
    and c1: "column twin_sim (i_movie_label (twin_items ! Suc 0)) = Inr [?a, ?b]"
    by code_simp+
  have f0: "filter (\<lambda>it. i_movie_label it \<in> set [fst ?a]) twin_items = [twin_items ! 0]"
    and f1: "filter (\<lambda>it. i_movie_label it \<in> set [fst ?b]) twin_items = [twin_items ! 1]"
    by code_simp+
  have sl: "py_slice 1 2 [p, q] = [q]" for p q :: "string \<times> real"
    by (simp add: py_slice_def slice_bound_def)
  from assms have "mset (sort_values [?a, ?b]) = {#?a, ?b#}" by (simp add: descending_sort_def)
  from mset_pair [OF this]
  have "sort_values [?a, ?b] = [?a, ?b] \<or> sort_values [?a, ?b] = [?b, ?a]" .
  then show ?thesis
  proof
    assume s: "sort_values [?a, ?b] = [?a, ?b]"
    have "content_based_movie_recommendations sort_values ''Heat (1986)'' twin_sim twin_items 1
           = Inr (Frame [twin_items ! 1])"
      unfolding content_based_movie_recommendations_def m1 using f1
      by (simp add: c1 s sl)
    then show ?thesis ..
  next
    assume s: "sort_values [?a, ?b] = [?b, ?a]"
    have "content_based_movie_recommendations sort_values ''Heat (1995)'' twin_sim twin_items 1
           = Inr (Frame [twin_items ! 0])"
      unfolding content_based_movie_recommendations_def m0 using f0
      by (simp add: c0 s sl)
    then show ?thesis ..
  qed
qed

text \<open>When two movie ids share title and genres, their labels coincide and the column
  lookup selects two columns: the query fails.\<close>

lemma duplicate_label_query_fails:
  "content_based_movie_recommendations sort_values_stable ''Emma (1996)''
     \<lparr>frame_index = map movie_label (dataset_content emma_rat emma_mov),
      frame_columns = zip (map movie_label (dataset_content emma_rat emma_mov)) [[1, 1], [1, 1]]\<rparr>
     (content_based_data (dataset_content emma_rat emma_mov)) 10 = Inl TypeError"
  by code_simp

end
